theory Spec2Isabelle
  imports Main "HOL-Library.Char_ord" "HOL-Library.List_Lexorder"
begin

section \<open>Time values and their ISO-8601 rendering\<close>

text \<open>
  The scheduler of \<^verbatim>\<open>src/services/schedulerService.ts\<close> builds its query bounds with
  \<^verbatim>\<open>Date.prototype.toISOString\<close>. A JavaScript time value is an integer number of
  milliseconds since 1970-01-01T00:00:00Z. The functions below follow the date
  algorithms of the ECMAScript specification (\<^verbatim>\<open>Day\<close>, \<^verbatim>\<open>DayFromYear\<close>,
  \<^verbatim>\<open>YearFromTime\<close>, \<^verbatim>\<open>MonthFromTime\<close>, \<^verbatim>\<open>DateFromTime\<close>, ...). \<^verbatim>\<open>YearFromTime\<close> is
  specified as the largest year whose first day is not after the given day; here it is
  computed by a search upwards from a year that is known to be early enough.
\<close>

definition msPerDay :: int where "msPerDay = 86400000"

definition Day :: "int \<Rightarrow> int" where "Day t = t div msPerDay"

definition DayFromYear :: "int \<Rightarrow> int" where
  "DayFromYear y = 365 * (y - 1970) + (y - 1969) div 4 - (y - 1901) div 100 + (y - 1601) div 400"

definition isLeap :: "int \<Rightarrow> bool" where
  "isLeap y = (y mod 4 = 0 \<and> (y mod 100 \<noteq> 0 \<or> y mod 400 = 0))"

definition DaysInYear :: "int \<Rightarrow> int" where
  "DaysInYear y = (if isLeap y then 366 else 365)"

function yearUp :: "int \<Rightarrow> int \<Rightarrow> int" where
  "yearUp d y = (if d < DayFromYear (y + 1) then y else yearUp d (y + 1))"
  by pat_completeness auto

definition yearGuess :: "int \<Rightarrow> int" where
  "yearGuess d = 1970 + (if 0 \<le> d then d div 366 else d div 365)"

definition YearFromTime :: "int \<Rightarrow> int" where
  "YearFromTime t = yearUp (Day t) (yearGuess (Day t))"

definition InLeapYear :: "int \<Rightarrow> int" where
  "InLeapYear t = (if DaysInYear (YearFromTime t) = 366 then 1 else 0)"

definition DayWithinYear :: "int \<Rightarrow> int" where
  "DayWithinYear t = Day t - DayFromYear (YearFromTime t)"

definition monthOf :: "int \<Rightarrow> int \<Rightarrow> int" where
  "monthOf l d =
    (if d < 31 then 0
     else if d < 59 + l then 1
     else if d < 90 + l then 2
     else if d < 120 + l then 3
     else if d < 151 + l then 4
     else if d < 181 + l then 5
     else if d < 212 + l then 6
     else if d < 243 + l then 7
     else if d < 273 + l then 8
     else if d < 304 + l then 9
     else if d < 334 + l then 10
     else 11)"

definition dateOf :: "int \<Rightarrow> int \<Rightarrow> int" where
  "dateOf l d =
    (let m = monthOf l d in
     if m = 0 then d + 1
     else if m = 1 then d - 30
     else if m = 2 then d - 58 - l
     else if m = 3 then d - 89 - l
     else if m = 4 then d - 119 - l
     else if m = 5 then d - 150 - l
     else if m = 6 then d - 180 - l
     else if m = 7 then d - 211 - l
     else if m = 8 then d - 242 - l
     else if m = 9 then d - 272 - l
     else if m = 10 then d - 303 - l
     else d - 333 - l)"

text \<open>The first day of each month within its year (the thresholds of \<open>monthOf\<close>).\<close>

definition monthStart :: "int \<Rightarrow> int \<Rightarrow> int" where
  "monthStart l m =
    (if m \<le> 0 then 0
     else if m = 1 then 31
     else if m = 2 then 59 + l
     else if m = 3 then 90 + l
     else if m = 4 then 120 + l
     else if m = 5 then 151 + l
     else if m = 6 then 181 + l
     else if m = 7 then 212 + l
     else if m = 8 then 243 + l
     else if m = 9 then 273 + l
     else if m = 10 then 304 + l
     else if m = 11 then 334 + l
     else 365 + l)"

definition MonthFromTime :: "int \<Rightarrow> int" where
  "MonthFromTime t = monthOf (InLeapYear t) (DayWithinYear t)"

definition DateFromTime :: "int \<Rightarrow> int" where
  "DateFromTime t = dateOf (InLeapYear t) (DayWithinYear t)"

definition HourFromTime :: "int \<Rightarrow> int" where "HourFromTime t = (t div 3600000) mod 24"
definition MinFromTime :: "int \<Rightarrow> int" where "MinFromTime t = (t div 60000) mod 60"
definition SecFromTime :: "int \<Rightarrow> int" where "SecFromTime t = (t div 1000) mod 60"
definition msFromTime :: "int \<Rightarrow> int" where "msFromTime t = t mod 1000"

text \<open>Decimal digits and zero-padded fields of fixed width.\<close>

definition digit :: "int \<Rightarrow> char" where "digit n = char_of (nat (48 + n))"

fun pad :: "nat \<Rightarrow> int \<Rightarrow> string" where
  "pad 0 n = []"
| "pad (Suc k) n = pad k (n div 10) @ [digit (n mod 10)]"

text \<open>
  Years 0 to 9999 are written with four digits; any other year takes the expanded form,
  a sign followed by six digits.
\<close>

definition yearString :: "int \<Rightarrow> string" where
  "yearString y = (if 0 \<le> y \<and> y \<le> 9999 then pad 4 y
     else (if y < 0 then ''-'' else ''+'') @ pad 6 \<bar>y\<bar>)"

definition isoString :: "int \<Rightarrow> string" where
  "isoString t = yearString (YearFromTime t) @ ''-'' @ pad 2 (MonthFromTime t + 1) @ ''-''
     @ pad 2 (DateFromTime t) @ ''T'' @ pad 2 (HourFromTime t) @ '':''
     @ pad 2 (MinFromTime t) @ '':'' @ pad 2 (SecFromTime t) @ ''.''
     @ pad 3 (msFromTime t) @ ''Z''"

text \<open>
  The instants whose rendering has the 24-character form \<^verbatim>\<open>YYYY-MM-DDTHH:mm:ss.sssZ\<close>:
  from 0000-01-01T00:00:00.000Z to 9999-12-31T23:59:59.999Z.
\<close>

definition minFixed :: int where "minFixed = - 62167219200000"
definition maxFixed :: int where "maxFixed = 253402300799999"

definition fixedWidth :: "int \<Rightarrow> bool" where
  "fixedWidth t = (minFixed \<le> t \<and> t \<le> maxFixed)"

section \<open>The reminder store and the scheduler\<close>

text \<open>
  A reminder document as the scheduler uses it: its identifier, the reference to the owning
  user, the title, the due time \<^verbatim>\<open>datetime\<close> as the store holds it (the query compares it
  with ISO strings), and the flag \<^verbatim>\<open>notified\<close>, which is absent (\<open>None\<close>), false or true.
\<close>

record reminder =
  rid :: nat
  userId :: nat
  title :: string
  datetime :: string
  notified :: "bool option"

text \<open>A document returned by \<^verbatim>\<open>find(...).populate('userId')\<close>: the reminder together
  with the resolved owner, \<open>None\<close> when the referenced user does not exist.\<close>

type_synonym doc = "reminder \<times> nat option"

datatype error = RangeError | TypeError | StoreError | TransportError | DocumentNotFoundError

text \<open>What the service does to the outside: its console lines and its calls of
  \<^verbatim>\<open>notificationService.sendReminderNotification\<close> (\<open>Dispatch\<close>, with the reminder's id).\<close>

datatype event =
    LogAlreadyRunning
  | LogStarted
  | LogStopped
  | LogSchedulerError error
  | LogFound nat
  | Dispatch nat
  | LogSent nat
  | LogFailed nat error
  | LogCheckError error
  | LogManualTrigger
  | LogReset nat
  | LogResetError error

text \<open>
  The state: the field \<^verbatim>\<open>isRunning\<close> of the service, the cron tasks that
  \<^verbatim>\<open>cron.schedule\<close> has registered (their cron expressions), the reminder collection, the
  identifiers of the existing users, and the events so far.
\<close>

record state =
  isRunning :: bool
  jobs :: "string list"
  reminders :: "reminder list"
  users :: "nat list"
  trace :: "event list"

text \<open>
  What the service cannot control during one cycle: the clock (\<^verbatim>\<open>new Date()\<close>, in
  milliseconds), and whether each awaited call rejects: the query, the notification for a
  reminder, the save of a reminder, the bulk update.
\<close>

record env =
  now :: int
  findFails :: bool
  sendFails :: "nat \<Rightarrow> bool"
  saveFails :: "nat \<Rightarrow> bool"
  updateManyFails :: bool

definition emit :: "event \<Rightarrow> state \<Rightarrow> state" where
  "emit e s = s\<lparr>trace := trace s @ [e]\<rparr>"

subsection \<open>Starting and stopping\<close>

definition everyMinute :: string where "everyMinute = ''* * * * *''"

definition startScheduler :: "state \<Rightarrow> state" where
  "startScheduler s =
    (if isRunning s then emit LogAlreadyRunning s
     else emit LogStarted (s\<lparr>jobs := jobs s @ [everyMinute], isRunning := True\<rparr>))"

definition stopScheduler :: "state \<Rightarrow> state" where
  "stopScheduler s = emit LogStopped (s\<lparr>isRunning := False\<rparr>)"

subsection \<open>The calls the cycle awaits\<close>

text \<open>\<^verbatim>\<open>toISOString\<close> throws a RangeError on an invalid date, which is what
  \<^verbatim>\<open>new Date(v)\<close> is when \<open>v\<close> lies outside the range of time values.\<close>

definition maxTime :: int where "maxTime = 8640000000000000"

definition toISOString :: "int \<Rightarrow> error + string" where
  "toISOString t = (if \<bar>t\<bar> \<le> maxTime then Inr (isoString t) else Inl RangeError)"

text \<open>The filter of the query: \<^verbatim>\<open>datetime\<close> between the two strings (\<^verbatim>\<open>$gte\<close>,
  \<^verbatim>\<open>$lte\<close>, compared as strings) and \<^verbatim>\<open>notified\<close> not equal to true.\<close>

definition matches :: "string \<Rightarrow> string \<Rightarrow> reminder \<Rightarrow> bool" where
  "matches lo hi r = (lo \<le> datetime r \<and> datetime r \<le> hi \<and> notified r \<noteq> Some True)"

definition populate :: "nat list \<Rightarrow> reminder \<Rightarrow> doc" where
  "populate us r = (r, if userId r \<in> set us then Some (userId r) else None)"

definition Reminder_find :: "env \<Rightarrow> string \<Rightarrow> string \<Rightarrow> state \<Rightarrow> error + doc list" where
  "Reminder_find e lo hi s =
    (if findFails e then Inl StoreError
     else Inr (map (populate (users s)) (filter (matches lo hi) (reminders s))))"

definition sendReminderNotification :: "env \<Rightarrow> reminder \<Rightarrow> state \<Rightarrow> (error + unit) \<times> state" where
  "sendReminderNotification e r s =
    (if sendFails e (rid r) then Inl TransportError else Inr (), emit (Dispatch (rid r)) s)"

text \<open>
  \<^verbatim>\<open>reminder.save()\<close> on a document that was loaded from the store writes its modified
  field, here \<^verbatim>\<open>notified\<close>, to the stored document with the same identifier, whatever the
  stored flag is. Mongoose rejects with DocumentNotFoundError when no stored document has
  that identifier.
\<close>

definition save :: "env \<Rightarrow> reminder \<Rightarrow> state \<Rightarrow> (error + unit) \<times> state" where
  "save e r s =
    (if saveFails e (rid r) then (Inl StoreError, s)
     else if rid r \<notin> set (map rid (reminders s)) then (Inl DocumentNotFoundError, s)
     else (Inr (),
       s\<lparr>reminders := map (\<lambda>x. if rid x = rid r then x\<lparr>notified := notified r\<rparr> else x)
          (reminders s)\<rparr>))"

text \<open>\<^verbatim>\<open>Reminder.updateMany({ notified: true }, { $unset: { notified: 1 } })\<close>, with its
  \<^verbatim>\<open>modifiedCount\<close>.\<close>

definition updateMany :: "env \<Rightarrow> state \<Rightarrow> (error + nat) \<times> state" where
  "updateMany e s =
    (if updateManyFails e then (Inl StoreError, s)
     else (Inr (length (filter (\<lambda>r. notified r = Some True) (reminders s))),
       s\<lparr>reminders := map (\<lambda>r. if notified r = Some True then r\<lparr>notified := None\<rparr> else r)
          (reminders s)\<rparr>))"

subsection \<open>One cycle\<close>

text \<open>The body of the inner \<^verbatim>\<open>try\<close>: \<^verbatim>\<open>reminder.userId.toString()\<close> throws on a null
  owner; then the notification, then the mark and the save, then the success line.\<close>

definition notifyBody :: "env \<Rightarrow> doc \<Rightarrow> state \<Rightarrow> (error + unit) \<times> state" where
  "notifyBody e d s =
    (case snd d of
       None \<Rightarrow> (Inl TypeError, s)
     | Some u \<Rightarrow>
        (case sendReminderNotification e (fst d) s of
           (Inl x, s1) \<Rightarrow> (Inl x, s1)
         | (Inr _, s1) \<Rightarrow>
            (case save e ((fst d)\<lparr>notified := Some True\<rparr>) s1 of
               (Inl x, s2) \<Rightarrow> (Inl x, s2)
             | (Inr _, s2) \<Rightarrow> (Inr (), emit (LogSent (rid (fst d))) s2))))"

text \<open>The inner \<^verbatim>\<open>try\<close> with its \<^verbatim>\<open>catch\<close>.\<close>

definition notifyReminder :: "env \<Rightarrow> doc \<Rightarrow> state \<Rightarrow> (error + unit) \<times> state" where
  "notifyReminder e d s =
    (case notifyBody e d s of
       (Inl x, s1) \<Rightarrow> (Inr (), emit (LogFailed (rid (fst d)) x) s1)
     | (Inr _, s1) \<Rightarrow> (Inr (), s1))"

text \<open>The \<^verbatim>\<open>for ... of\<close> loop: one reminder after the other; an exception that left
  an iteration would end the loop.\<close>

fun forEach :: "env \<Rightarrow> doc list \<Rightarrow> state \<Rightarrow> (error + unit) \<times> state" where
  "forEach e [] s = (Inr (), s)"
| "forEach e (d # ds) s =
    (case notifyReminder e d s of
       (Inl x, s1) \<Rightarrow> (Inl x, s1)
     | (Inr _, s1) \<Rightarrow> forEach e ds s1)"

definition lookahead :: int where "lookahead = 5 * 60 * 1000"

text \<open>The body of the outer \<^verbatim>\<open>try\<close>.\<close>

definition checkBody :: "env \<Rightarrow> state \<Rightarrow> (error + unit) \<times> state" where
  "checkBody e s =
    (case toISOString (now e) of
       Inl x \<Rightarrow> (Inl x, s)
     | Inr lo \<Rightarrow>
        (case toISOString (now e + lookahead) of
           Inl x \<Rightarrow> (Inl x, s)
         | Inr hi \<Rightarrow>
            (case Reminder_find e lo hi s of
               Inl x \<Rightarrow> (Inl x, s)
             | Inr upcomingReminders \<Rightarrow>
                if length upcomingReminders = 0 then (Inr (), s)
                else forEach e upcomingReminders
                       (emit (LogFound (length upcomingReminders)) s))))"

definition checkAndSendReminders :: "env \<Rightarrow> state \<Rightarrow> (error + unit) \<times> state" where
  "checkAndSendReminders e s =
    (case checkBody e s of
       (Inl x, s1) \<Rightarrow> (Inr (), emit (LogCheckError x) s1)
     | (Inr _, s1) \<Rightarrow> (Inr (), s1))"

definition triggerManualCheck :: "env \<Rightarrow> state \<Rightarrow> (error + unit) \<times> state" where
  "triggerManualCheck e s = checkAndSendReminders e (emit LogManualTrigger s)"

definition resetAllNotifications :: "env \<Rightarrow> state \<Rightarrow> (error + unit) \<times> state" where
  "resetAllNotifications e s =
    (case updateMany e s of
       (Inl x, s1) \<Rightarrow> (Inr (), emit (LogResetError x) s1)
     | (Inr n, s1) \<Rightarrow> (Inr (), emit (LogReset n) s1))"

text \<open>The callback that \<^verbatim>\<open>startScheduler\<close> hands to \<^verbatim>\<open>cron.schedule\<close>, run from its
  call to its end: the cycle inside a \<^verbatim>\<open>try\<close> of its own.\<close>

definition cronCallback :: "env \<Rightarrow> state \<Rightarrow> (error + unit) \<times> state" where
  "cronCallback e s =
    (case checkAndSendReminders e s of
       (Inl x, s1) \<Rightarrow> (Inr (), emit (LogSchedulerError x) s1)
     | (Inr _, s1) \<Rightarrow> (Inr (), s1))"

text \<open>The scan of a cycle run at time \<open>t\<close>, without the chance of failure: the
  reminders the query matches.\<close>

definition scan :: "int \<Rightarrow> state \<Rightarrow> reminder list" where
  "scan t s = filter (matches (isoString t) (isoString (t + lookahead))) (reminders s)"

text \<open>Cycles run one after the other, each to its end, each with its own clock and
  failures.\<close>

definition runCycles :: "env list \<Rightarrow> state \<Rightarrow> state" where
  "runCycles es s = fold (\<lambda>e st. snd (checkAndSendReminders e st)) es s"

definition dispatches :: "nat \<Rightarrow> event list \<Rightarrow> nat" where
  "dispatches i evs = length (filter (\<lambda>v. v = Dispatch i) evs)"

text \<open>A clock for which both query bounds are valid dates.\<close>

definition validClock :: "env \<Rightarrow> bool" where
  "validClock e = (\<bar>now e\<bar> \<le> maxTime \<and> \<bar>now e + lookahead\<bar> \<le> maxTime)"

subsection \<open>Cycles in flight\<close>

text \<open>
  \<^verbatim>\<open>checkAndSendReminders\<close> is an async function: it runs until it awaits a call and goes
  on when that call has settled; in between, other code runs, such as another cycle or
  the deletion of a reminder by its owner. A cycle in flight waits for its query (with the
  two bounds it has computed), for the notification of a document, or for the save of a
  document (in both cases with the documents still to come), or it has returned.
\<close>

datatype pc = AwaitFind string string | AwaitSend doc "doc list" | AwaitSave doc "doc list" | Returned

text \<open>The loop from the head of the remaining documents up to the next awaited call: a
  document without owner fails at once and the loop moves on; otherwise the notification
  is called.\<close>

fun enterLoop :: "doc list \<Rightarrow> state \<Rightarrow> pc \<times> state" where
  "enterLoop [] s = (Returned, s)"
| "enterLoop (d # ds) s =
    (case snd d of
       None \<Rightarrow> enterLoop ds (emit (LogFailed (rid (fst d)) TypeError) s)
     | Some u \<Rightarrow> (AwaitSend d ds, emit (Dispatch (rid (fst d))) s))"

text \<open>The call of the function, up to its first await.\<close>

definition startCycle :: "env \<Rightarrow> state \<Rightarrow> pc \<times> state" where
  "startCycle e s =
    (case toISOString (now e) of
       Inl x \<Rightarrow> (Returned, emit (LogCheckError x) s)
     | Inr lo \<Rightarrow>
        (case toISOString (now e + lookahead) of
           Inl x \<Rightarrow> (Returned, emit (LogCheckError x) s)
         | Inr hi \<Rightarrow> (AwaitFind lo hi, s)))"

text \<open>The awaited call settles, as the environment says, and the cycle runs on to its
  next await.\<close>

fun resume :: "env \<Rightarrow> pc \<Rightarrow> state \<Rightarrow> pc \<times> state" where
  "resume e (AwaitFind lo hi) s =
    (case Reminder_find e lo hi s of
       Inl x \<Rightarrow> (Returned, emit (LogCheckError x) s)
     | Inr upcomingReminders \<Rightarrow>
        if length upcomingReminders = 0 then (Returned, s)
        else enterLoop upcomingReminders (emit (LogFound (length upcomingReminders)) s))"
| "resume e (AwaitSend d ds) s =
    (if sendFails e (rid (fst d))
     then enterLoop ds (emit (LogFailed (rid (fst d)) TransportError) s)
     else (AwaitSave d ds, s))"
| "resume e (AwaitSave d ds) s =
    (case save e ((fst d)\<lparr>notified := Some True\<rparr>) s of
       (Inl x, s1) \<Rightarrow> enterLoop ds (emit (LogFailed (rid (fst d)) x) s1)
     | (Inr _, s1) \<Rightarrow> enterLoop ds (emit (LogSent (rid (fst d))) s1))"
| "resume e Returned s = (Returned, s)"

text \<open>
  What can happen next: a cron task calls its callback, which starts a cycle,
  \<^verbatim>\<open>triggerManualCheck\<close> starts one, the awaited call of the cycle with a given number
  settles, or the owner deletes a reminder.
\<close>

datatype action = Timer env | Manual env | Settle nat env | Delete nat

fun perform :: "action \<Rightarrow> pc list \<times> state \<Rightarrow> pc list \<times> state" where
  "perform (Timer e) (ps, s) = (case startCycle e s of (p, s1) \<Rightarrow> (ps @ [p], s1))"
| "perform (Manual e) (ps, s) =
    (case startCycle e (emit LogManualTrigger s) of (p, s1) \<Rightarrow> (ps @ [p], s1))"
| "perform (Settle i e) (ps, s) =
    (if i < length ps then (case resume e (ps ! i) s of (p, s1) \<Rightarrow> (ps[i := p], s1))
     else (ps, s))"
| "perform (Delete i) (ps, s) = (ps, s\<lparr>reminders := filter (\<lambda>r. rid r \<noteq> i) (reminders s)\<rparr>)"

definition run :: "action list \<Rightarrow> pc list \<times> state \<Rightarrow> pc list \<times> state" where
  "run acts c = fold perform acts c"

text \<open>
  A timer tick: every registered cron task calls its callback, and each call runs its cycle
  up to the first await. The cycles that one tick has started are in flight together;
  their awaited calls settle in any order afterwards.
\<close>

definition timerTick :: "env \<Rightarrow> pc list \<times> state \<Rightarrow> pc list \<times> state" where
  "timerTick e c = fold (\<lambda>j. perform (Timer e)) (jobs (snd c)) c"

subsection \<open>Summaries of one iteration\<close>

text \<open>The events of one iteration of the loop, and whether it ends with the reminder
  marked: the owner resolves, the notification and the save succeed.\<close>

definition eventsFor :: "env \<Rightarrow> doc \<Rightarrow> event list" where
  "eventsFor e d =
    (case snd d of
       None \<Rightarrow> [LogFailed (rid (fst d)) TypeError]
     | Some u \<Rightarrow>
        [Dispatch (rid (fst d)),
         if sendFails e (rid (fst d)) then LogFailed (rid (fst d)) TransportError
         else if saveFails e (rid (fst d)) then LogFailed (rid (fst d)) StoreError
         else LogSent (rid (fst d))])"

definition delivered :: "env \<Rightarrow> doc \<Rightarrow> bool" where
  "delivered e d = (snd d \<noteq> None \<and> \<not> sendFails e (rid (fst d)) \<and> \<not> saveFails e (rid (fst d)))"

definition markAll :: "nat list \<Rightarrow> reminder \<Rightarrow> reminder" where
  "markAll is x = (if rid x \<in> set is then x\<lparr>notified := Some True\<rparr> else x)"

definition unsetNotified :: "reminder \<Rightarrow> reminder" where
  "unsetNotified r = (if notified r = Some True then r\<lparr>notified := None\<rparr> else r)"

text \<open>How many stored reminders with identifier \<open>i\<close> are not marked.\<close>

definition pending :: "nat \<Rightarrow> state \<Rightarrow> nat" where
  "pending i s = length (filter (\<lambda>r. rid r = i \<and> notified r \<noteq> Some True) (reminders s))"

subsection \<open>Example data\<close>

text \<open>A clock reading, 2025-11-01T12:26:40.000Z, and three reminders due two, three and
  four minutes later, owned by existing users.\<close>

definition exNow :: int where "exNow = 1762000000000"

definition exReminder :: "nat \<Rightarrow> string \<Rightarrow> bool option \<Rightarrow> reminder" where
  "exReminder i dt n = \<lparr>rid = i, userId = 7, title = ''call'', datetime = dt, notified = n\<rparr>"

definition exState :: "reminder list \<Rightarrow> state" where
  "exState rs = \<lparr>isRunning = False, jobs = [], reminders = rs, users = [7], trace = []\<rparr>"

definition exEnv :: "int \<Rightarrow> env" where
  "exEnv t = \<lparr>now = t, findFails = False, sendFails = (\<lambda>i. False), saveFails = (\<lambda>i. False),
     updateManyFails = False\<rparr>"

text \<open>The same environment with every notification failing, and with the notification
  of reminder 2 failing.\<close>

definition exEnvSendsFail :: "int \<Rightarrow> env" where
  "exEnvSendsFail t = (exEnv t)\<lparr>sendFails := (\<lambda>i. True)\<rparr>"

definition exEnvSecondFails :: "int \<Rightarrow> env" where
  "exEnvSecondFails t = (exEnv t)\<lparr>sendFails := (\<lambda>i. i = 2)\<rparr>"

text \<open>A timer cycle and a manual cycle over the same two reminders: both queries settle
  before either cycle has marked anything, then the timer cycle runs to its end.\<close>

definition exOverlap :: "action list" where
  "exOverlap = [Timer (exEnv exNow), Manual (exEnv exNow), Settle 0 (exEnv exNow),
     Settle 1 (exEnv exNow), Settle 0 (exEnv exNow), Settle 0 (exEnv exNow),
     Settle 0 (exEnv exNow), Settle 0 (exEnv exNow)]"

text \<open>A cycle whose reminder is deleted after its notification was sent and before its
  save.\<close>

definition exDeleted :: "action list" where
  "exDeleted = [Timer (exEnv exNow), Settle 0 (exEnv exNow), Settle 0 (exEnv exNow), Delete 1,
     Settle 0 (exEnv exNow)]"

section \<open>Order of the ISO renderings\<close>

text \<open>The length of a year, and the termination of the search for the year.\<close>

lemma div_succ:
  fixes a n :: int
  assumes "0 < n"
  shows "(a + 1) div n = a div n + (if (a + 1) mod n = 0 then 1 else 0)"
proof -
  define q where "q = a div n"
  define r where "r = a mod n"
  have e1: "a = n * q + r" unfolding q_def r_def by simp
  have r: "0 \<le> r" "r < n" using assms unfolding r_def by simp_all
  show ?thesis
  proof (cases "r + 1 = n")
    case True
    have "a + 1 = n * (q + 1) + 0" unfolding e1 using True by (simp add: algebra_simps)
    then have "(a + 1) div n = q + 1" "(a + 1) mod n = 0"
      using assms int_div_pos_eq [of "a + 1" n "q + 1" 0] int_mod_pos_eq [of "a + 1" n "q + 1" 0]
      by simp_all
    then show ?thesis unfolding q_def by simp
  next
    case False
    then have lt: "r + 1 < n" using r by linarith
    have "a + 1 = n * q + (r + 1)" unfolding e1 by simp
    then have "(a + 1) div n = q" "(a + 1) mod n = r + 1"
      using lt r int_div_pos_eq [of "a + 1" n "q" "r + 1"]
         int_mod_pos_eq [of "a + 1" n "q" "r + 1"]
      by simp_all
    then show ?thesis using r unfolding q_def by simp
  qed
qed

lemma mod4_shift: "((y::int) - 1968) mod 4 = y mod 4"
  using mod_mult_self2 [of y 4 "-492"] by simp
lemma mod100_shift: "((y::int) - 1900) mod 100 = y mod 100"
  using mod_mult_self2 [of y 100 "-19"] by simp
lemma mod400_shift: "((y::int) - 1600) mod 400 = y mod 400"
  using mod_mult_self2 [of y 400 "-4"] by simp
lemma mod100_imp_mod4: "(y::int) mod 100 = 0 \<Longrightarrow> y mod 4 = 0"
proof -
  assume "y mod 100 = 0"
  then have "100 dvd y" by (simp add: dvd_eq_mod_eq_0)
  moreover have "(4::int) dvd 100" by simp
  ultimately have "4 dvd y" by (rule dvd_trans [rotated])
  then show ?thesis by (simp add: dvd_eq_mod_eq_0)
qed
lemma mod400_imp_mod100: "(y::int) mod 400 = 0 \<Longrightarrow> y mod 100 = 0"
proof -
  assume "y mod 400 = 0"
  then have "400 dvd y" by (simp add: dvd_eq_mod_eq_0)
  moreover have "(100::int) dvd 400" by simp
  ultimately have "100 dvd y" by (rule dvd_trans [rotated])
  then show ?thesis by (simp add: dvd_eq_mod_eq_0)
qed

lemma DayFromYear_Suc: "DayFromYear (y + 1) = DayFromYear y + DaysInYear y"
proof -
  define A where "A = (y - 1969) div 4"
  define B where "B = (y - 1901) div 100"
  define C where "C = (y - 1601) div 400"
  define A' where "A' = (y + 1 - 1969) div 4"
  define B' where "B' = (y + 1 - 1901) div 100"
  define C' where "C' = (y + 1 - 1601) div 400"
  define a where "a = (if y mod 4 = 0 then 1 else 0::int)"
  define b where "b = (if y mod 100 = 0 then 1 else 0::int)"
  define c where "c = (if y mod 400 = 0 then 1 else 0::int)"
  have s1: "y + 1 - 1969 = (y - 1969) + 1" "y + 1 - 1901 = (y - 1901) + 1"
    "y + 1 - 1601 = (y - 1601) + 1" "y - 1969 + 1 = y - 1968" "y - 1901 + 1 = y - 1900"
    "y - 1601 + 1 = y - 1600"
    by linarith+
  have a: "A' = A + a"
    unfolding A'_def A_def a_def s1(1) using div_succ [of 4 "y - 1969"] 
    by (simp only: s1 mod4_shift)
  have b: "B' = B + b"
    unfolding B'_def B_def b_def s1(2) using div_succ [of 100 "y - 1901"] 
    by (simp only: s1 mod100_shift)
  have c: "C' = C + c"
    unfolding C'_def C_def c_def s1(3) using div_succ [of 400 "y - 1601"] 
    by (simp only: s1 mod400_shift)
  have l: "DayFromYear (y + 1) = 365 * (y + 1 - 1970) + A' - B' + C'"
    "DayFromYear y = 365 * (y - 1970) + A - B + C"
    unfolding DayFromYear_def A'_def B'_def C'_def A_def B_def C_def by (rule refl)+
  have d: "DaysInYear y = 365 + a - b + c"
    unfolding DaysInYear_def isLeap_def a_def b_def c_def
    using mod100_imp_mod4 [of y] mod400_imp_mod100 [of y] by (cases "y mod 4 = 0"; cases "y mod 100 = 0"; cases "y mod 400 = 0") simp_all
  show ?thesis unfolding l d a b c by simp
qed


lemma DayFromYear_less: "DayFromYear y < DayFromYear (y + 1)"
  unfolding DayFromYear_Suc DaysInYear_def by simp

termination yearUp
proof (relation "measure (\<lambda>(d, y). nat (d - DayFromYear (y + 1) + 1))")
  show "wf (measure (\<lambda>(d, y). nat (d - DayFromYear (y + 1) + 1)))" by simp
next
  fix d y :: int
  assume "\<not> d < DayFromYear (y + 1)"
  moreover have "DayFromYear (y + 1) < DayFromYear (y + 1 + 1)" by (rule DayFromYear_less)
  ultimately show "((d, y + 1), (d, y)) \<in> measure (\<lambda>(d, y). nat (d - DayFromYear (y + 1) + 1))"
    by simp
qed

declare yearUp.simps [simp del]

lemma DayFromYear_mono: "y \<le> y' \<Longrightarrow> DayFromYear y \<le> DayFromYear y'"
proof (induction y' rule: int_ge_induct)
  case base
  show ?case by simp
next
  case (step i)
  then show ?case using DayFromYear_less [of i] by linarith
qed

lemma DayFromYear_1970: "DayFromYear 1970 = 0"
  unfolding DayFromYear_def by simp

lemma DaysInYear_bounds: "365 \<le> DaysInYear y \<and> DaysInYear y \<le> 366"
  unfolding DaysInYear_def by simp

lemma DayFromYear_upper: "1970 \<le> y \<Longrightarrow> DayFromYear y \<le> 366 * (y - 1970)"
proof (induction y rule: int_ge_induct)
  case base
  show ?case by (simp add: DayFromYear_1970)
next
  case (step i)
  then show ?case using DayFromYear_Suc [of i] DaysInYear_bounds [of i] by simp
qed

lemma DayFromYear_lower: "y \<le> 1970 \<Longrightarrow> DayFromYear y \<le> 365 * (y - 1970)"
proof (induction y rule: int_le_induct)
  case base
  show ?case by (simp add: DayFromYear_1970)
next
  case (step i)
  then show ?case using DayFromYear_Suc [of "i - 1"] DaysInYear_bounds [of "i - 1"] by simp
qed

lemma yearGuess_le: "DayFromYear (yearGuess d) \<le> d"
proof (cases "0 \<le> d")
  case True
  then have "0 \<le> d div 366" by simp
  then have "DayFromYear (1970 + d div 366) \<le> 366 * (d div 366)"
    using DayFromYear_upper [of "1970 + d div 366"] by simp
  moreover have "366 * (d div 366) \<le> d"
    using mult_div_mod_eq [of 366 d] pos_mod_sign [of 366 d] by linarith
  ultimately show ?thesis using True by (simp add: yearGuess_def)
next
  case False
  then have "d div 365 \<le> 0" using zdiv_mono1 [of d 0 365] by simp
  then have "DayFromYear (1970 + d div 365) \<le> 365 * (d div 365)"
    using DayFromYear_lower [of "1970 + d div 365"] by simp
  moreover have "365 * (d div 365) \<le> d"
    using mult_div_mod_eq [of 365 d] pos_mod_sign [of 365 d] by linarith
  ultimately show ?thesis using False by (simp add: yearGuess_def)
qed

lemma yearUp_spec:
  "DayFromYear y \<le> d \<Longrightarrow> DayFromYear (yearUp d y) \<le> d \<and> d < DayFromYear (yearUp d y + 1)"
proof (induction d y rule: yearUp.induct)
  case (1 d y)
  show ?case
  proof (cases "d < DayFromYear (y + 1)")
    case True
    then show ?thesis using "1.prems" by (simp add: yearUp.simps [of d y])
  next
    case False
    then have "DayFromYear (y + 1) \<le> d" by simp
    from "1.IH" [OF False this] show ?thesis using False by (simp add: yearUp.simps [of d y])
  qed
qed

lemma YearFromTime_spec:
  "DayFromYear (YearFromTime t) \<le> Day t \<and> Day t < DayFromYear (YearFromTime t + 1)"
  unfolding YearFromTime_def by (rule yearUp_spec [OF yearGuess_le])

lemma YearFromTime_mono:
  assumes "Day t1 \<le> Day t2"
  shows "YearFromTime t1 \<le> YearFromTime t2"
proof (rule ccontr)
  assume "\<not> YearFromTime t1 \<le> YearFromTime t2"
  then have "YearFromTime t2 + 1 \<le> YearFromTime t1" by simp
  then have "DayFromYear (YearFromTime t2 + 1) \<le> DayFromYear (YearFromTime t1)"
    by (rule DayFromYear_mono)
  then show False using YearFromTime_spec [of t1] YearFromTime_spec [of t2] assms by linarith
qed

lemma InLeapYear_cases: "0 \<le> InLeapYear t \<and> InLeapYear t \<le> 1"
  unfolding InLeapYear_def by simp

lemma DayWithinYear_range: "0 \<le> DayWithinYear t \<and> DayWithinYear t < 365 + InLeapYear t"
proof -
  have "DaysInYear (YearFromTime t) = 365 + InLeapYear t"
    unfolding InLeapYear_def DaysInYear_def by simp
  then show ?thesis
    using YearFromTime_spec [of t] DayFromYear_Suc [of "YearFromTime t"]
    unfolding DayWithinYear_def by linarith
qed

text \<open>Months and days of the month.\<close>

lemma month_range: "0 \<le> monthOf l d \<and> monthOf l d \<le> 11"
  unfolding monthOf_def by simp

lemma monthStart_step:
  "0 \<le> l \<Longrightarrow> l \<le> 1 \<Longrightarrow> monthStart l m \<le> monthStart l (m + 1) \<and> monthStart l (m + 1) \<le> monthStart l m + 31"
  unfolding monthStart_def by simp

lemma monthStart_mono:
  assumes "0 \<le> l" "l \<le> 1" "m \<le> m'"
  shows "monthStart l m \<le> monthStart l m'"
  using assms(3)
proof (induction m' rule: int_ge_induct)
  case base
  show ?case by simp
next
  case (step i)
  then show ?case using monthStart_step [OF assms(1,2), of i] by linarith
qed

lemma monthOf_interval:
  assumes "0 \<le> d" "d < 365 + l"
  shows "monthStart l (monthOf l d) \<le> d \<and> d < monthStart l (monthOf l d + 1)"
  using assms unfolding monthOf_def monthStart_def by simp

lemma dateOf_eq: "dateOf l d = d - monthStart l (monthOf l d) + 1"
  unfolding dateOf_def Let_def monthStart_def monthOf_def by simp

text \<open>Fields of fixed width compare as their numbers do.\<close>

lemma digit_less: "0 \<le> a \<Longrightarrow> a \<le> 9 \<Longrightarrow> 0 \<le> b \<Longrightarrow> b \<le> 9 \<Longrightarrow> digit a < digit b \<longleftrightarrow> a < b"
  unfolding digit_def less_char_def by (auto simp add: nat_add_distrib) 

lemma length_pad: "length (pad k n) = k"
  by (induction k arbitrary: n) simp_all

lemma app_less:
  fixes a b :: "'a::linorder list"
  shows "length a = length b \<Longrightarrow> a @ u < b @ v \<longleftrightarrow> a < b \<or> (a = b \<and> u < v)"
proof (induction a arbitrary: b)
  case Nil
  then show ?case by simp
next
  case (Cons x xs)
  then obtain y ys where b: "b = y # ys" "length xs = length ys" by (cases b) simp_all
  have "(x # xs) @ u < (y # ys) @ v \<longleftrightarrow> x < y \<or> (x = y \<and> xs @ u < ys @ v)"
    by (simp only: append_Cons Cons_less_Cons)
  also have "\<dots> \<longleftrightarrow> x < y \<or> (x = y \<and> (xs < ys \<or> (xs = ys \<and> u < v)))"
    by (simp only: Cons.IH [OF b(2)])
  also have "\<dots> \<longleftrightarrow> (x # xs < y # ys \<or> (x # xs = y # ys \<and> u < v))"
    by (simp only: Cons_less_Cons list.inject) blast
  finally show ?case unfolding b .
qed


lemma month_date_lex:
  assumes l: "0 \<le> l" "l \<le> 1" and d: "0 \<le> d1" "d1 < d2" "d2 < 365 + l"
  shows "monthOf l d1 < monthOf l d2 \<or> (monthOf l d1 = monthOf l d2 \<and> dateOf l d1 < dateOf l d2)"
proof -
  have i1: "monthStart l (monthOf l d1) \<le> d1" "d1 < monthStart l (monthOf l d1 + 1)"
    using monthOf_interval [of d1 l] d by simp_all
  have i2: "monthStart l (monthOf l d2) \<le> d2" "d2 < monthStart l (monthOf l d2 + 1)"
    using monthOf_interval [of d2 l] d by simp_all
  have le: "monthOf l d1 \<le> monthOf l d2"
  proof (rule ccontr)
    assume "\<not> monthOf l d1 \<le> monthOf l d2"
    then have "monthOf l d2 + 1 \<le> monthOf l d1" by simp
    then have "monthStart l (monthOf l d2 + 1) \<le> monthStart l (monthOf l d1)"
      by (rule monthStart_mono [OF l])
    then show False using i1 i2 d by simp
  qed
  show ?thesis
  proof (cases "monthOf l d1 = monthOf l d2")
    case True
    then show ?thesis using d by (simp add: dateOf_eq)
  next
    case False
    then show ?thesis using le by simp
  qed
qed

lemma dateOf_range:
  assumes l: "0 \<le> l" "l \<le> 1" and d: "0 \<le> d" "d < 365 + l"
  shows "1 \<le> dateOf l d \<and> dateOf l d \<le> 31"
  using monthOf_interval [OF d] monthStart_step [OF l, of "monthOf l d"]
  by (simp add: dateOf_eq)

lemma date_lex:
  assumes "Day t1 < Day t2"
  shows "YearFromTime t1 < YearFromTime t2 \<or> (YearFromTime t1 = YearFromTime t2 \<and>
     (MonthFromTime t1 < MonthFromTime t2 \<or>
       (MonthFromTime t1 = MonthFromTime t2 \<and> DateFromTime t1 < DateFromTime t2)))"
proof (cases "YearFromTime t1 = YearFromTime t2")
  case True
  then have l: "InLeapYear t1 = InLeapYear t2" by (simp add: InLeapYear_def)
  have "DayWithinYear t1 < DayWithinYear t2"
    using assms True by (simp add: DayWithinYear_def)
  then show ?thesis
    using month_date_lex [of "InLeapYear t2" "DayWithinYear t1" "DayWithinYear t2"]
      InLeapYear_cases [of t2] DayWithinYear_range [of t1] DayWithinYear_range [of t2] True l
    by (simp add: MonthFromTime_def DateFromTime_def)
next
  case False
  then show ?thesis using YearFromTime_mono [of t1 t2] assms by simp
qed

lemma same_Day:
  assumes "Day t1 = Day t2"
  shows "YearFromTime t1 = YearFromTime t2" "MonthFromTime t1 = MonthFromTime t2"
    "DateFromTime t1 = DateFromTime t2"
  using assms
  by (simp_all add: YearFromTime_def MonthFromTime_def DateFromTime_def InLeapYear_def
      DayWithinYear_def)

lemma lex_div:
  fixes x y n :: int
  assumes "0 < n" "x < y"
  shows "x div n < y div n \<or> (x div n = y div n \<and> x mod n < y mod n)"
proof (cases "x div n = y div n")
  case True
  have "x mod n = x - n * (x div n)" "y mod n = y - n * (y div n)"
    by (simp_all add: minus_mult_div_eq_mod)
  then have "x mod n = x - n * (x div n)" "y mod n = y - n * (x div n)"
    by (simp_all only: True)
  then show ?thesis using assms(2) True by simp
next
  case False
  then show ?thesis using zdiv_mono1 [of x y n] assms by simp
qed

lemma time_lex:
  assumes "t1 < t2"
  shows "Day t1 < Day t2 \<or> (Day t1 = Day t2 \<and>
    (HourFromTime t1 < HourFromTime t2 \<or> (HourFromTime t1 = HourFromTime t2 \<and>
    (MinFromTime t1 < MinFromTime t2 \<or> (MinFromTime t1 = MinFromTime t2 \<and>
    (SecFromTime t1 < SecFromTime t2 \<or> (SecFromTime t1 = SecFromTime t2 \<and>
     msFromTime t1 < msFromTime t2)))))))"
proof -
  have e: "t div 60000 = t div 1000 div 60" "t div 3600000 = t div 1000 div 60 div 60"
    "t div 86400000 = t div 1000 div 60 div 60 div 24" for t :: int
    by (simp_all add: div_mult2_eq [symmetric])
  have p: "(0::int) < 1000" "(0::int) < 60" "(0::int) < 24" by simp_all
  define a1 a2 where "a1 = t1 div 1000" and "a2 = t2 div 1000"
  define b1 b2 where "b1 = a1 div 60" and "b2 = a2 div 60"
  define c1 c2 where "c1 = b1 div 60" and "c2 = b2 div 60"
  have s: "a1 < a2 \<or> (a1 = a2 \<and> t1 mod 1000 < t2 mod 1000)"
    unfolding a1_def a2_def by (rule lex_div [OF p(1) assms])
  have m: "a1 < a2 \<Longrightarrow> b1 < b2 \<or> (b1 = b2 \<and> a1 mod 60 < a2 mod 60)"
    unfolding b1_def b2_def by (rule lex_div [OF p(2)])
  have h: "b1 < b2 \<Longrightarrow> c1 < c2 \<or> (c1 = c2 \<and> b1 mod 60 < b2 mod 60)"
    unfolding c1_def c2_def by (rule lex_div [OF p(2)])
  have d: "c1 < c2 \<Longrightarrow> c1 div 24 < c2 div 24 \<or> (c1 div 24 = c2 div 24 \<and> c1 mod 24 < c2 mod 24)"
    by (rule lex_div [OF p(3)])
  have q: "a1 = a2 \<Longrightarrow> b1 = b2" "b1 = b2 \<Longrightarrow> c1 = c2"
    unfolding b1_def b2_def c1_def c2_def by simp_all
  have "c1 div 24 < c2 div 24 \<or> (c1 div 24 = c2 div 24 \<and>
    (c1 mod 24 < c2 mod 24 \<or> (c1 mod 24 = c2 mod 24 \<and>
    (b1 mod 60 < b2 mod 60 \<or> (b1 mod 60 = b2 mod 60 \<and>
    (a1 mod 60 < a2 mod 60 \<or> (a1 mod 60 = a2 mod 60 \<and>
     t1 mod 1000 < t2 mod 1000)))))))"
    using s m h d q by blast
  then show ?thesis
    unfolding Day_def msPerDay_def HourFromTime_def MinFromTime_def SecFromTime_def
      msFromTime_def e a1_def a2_def b1_def b2_def c1_def c2_def .
qed

lemma time_ranges:
  "0 \<le> HourFromTime t \<and> HourFromTime t < 24" "0 \<le> MinFromTime t \<and> MinFromTime t < 60"
  "0 \<le> SecFromTime t \<and> SecFromTime t < 60" "0 \<le> msFromTime t \<and> msFromTime t < 1000"
  by (simp_all add: HourFromTime_def MinFromTime_def SecFromTime_def msFromTime_def)


lemma app_same_less:
  fixes a :: "'a::linorder list"
  shows "a @ u < a @ v \<longleftrightarrow> u < v"
  using app_less [OF refl, of a u v] by simp

lemma pad_less: "0 \<le> a \<Longrightarrow> a < b \<Longrightarrow> b < 10 ^ k \<Longrightarrow> pad k a < pad k b"
proof (induction k arbitrary: a b)
  case 0
  then show ?case by simp
next
  case (Suc k)
  have a10: "0 \<le> a div 10" using Suc.prems(1) by (simp add: pos_imp_zdiv_nonneg_iff)
  have "10 * (b div 10) \<le> b" 
    using minus_mult_div_eq_mod [of b 10] pos_mod_sign [of 10 b] by simp
  then have b10: "b div 10 < 10 ^ k" using Suc.prems(3) by simp
  have r: "0 \<le> a mod 10" "a mod 10 \<le> 9" "0 \<le> b mod 10" "b mod 10 \<le> 9"
    using pos_mod_bound [of 10 a] pos_mod_bound [of 10 b] by simp_all
  have len: "length (pad k (a div 10)) = length (pad k (b div 10))" by (simp add: length_pad)
  from lex_div [of 10 a b] Suc.prems(2)
  consider "a div 10 < b div 10" | "a div 10 = b div 10" "a mod 10 < b mod 10" by auto
  then show ?case
  proof cases
    case 1
    then have "pad k (a div 10) < pad k (b div 10)" using Suc.IH [OF a10 _ b10] by simp
    then show ?thesis by (simp add: app_less [OF len])
  next
    case 2
    then show ?thesis using digit_less [OF r] by (simp add: app_same_less)
  qed
qed

lemma field_less:
  assumes "0 \<le> x" "x < 10 ^ k" "0 \<le> y" "y < 10 ^ k" "x < y \<or> (x = y \<and> u < v)"
  shows "pad k x @ c # u < pad k y @ c # v"
proof -
  have len: "length (pad k x) = length (pad k y)" by (simp add: length_pad)
  from assms(5) show ?thesis
  proof
    assume "x < y"
    then have "pad k x < pad k y" using pad_less [OF assms(1) _ assms(4)] by simp
    then show ?thesis by (simp add: app_less [OF len])
  next
    assume "x = y \<and> u < v"
    then show ?thesis by (simp add: app_same_less)
  qed
qed

lemma fixedWidth_year:
  assumes "fixedWidth t"
  shows "0 \<le> YearFromTime t \<and> YearFromTime t \<le> 9999"
proof -
  have d0: "DayFromYear 0 = -719528" and d1: "DayFromYear 10000 = 2932897"
    unfolding DayFromYear_def by simp_all
  have "- 719528 \<le> Day t"
    using zdiv_mono1 [of "-62167219200000" t 86400000] assms
    unfolding fixedWidth_def minFixed_def Day_def msPerDay_def by simp
  moreover have "Day t \<le> 2932896"
    using zdiv_mono1 [of t 253402300799999 86400000] assms
    unfolding fixedWidth_def maxFixed_def Day_def msPerDay_def by simp
  ultimately have b: "DayFromYear 0 \<le> Day t" "Day t < DayFromYear 10000"
    unfolding d0 d1 by simp_all
  have "0 \<le> YearFromTime t"
  proof (rule ccontr)
    assume "\<not> 0 \<le> YearFromTime t"
    then have "YearFromTime t + 1 \<le> 0" by simp
    then have "DayFromYear (YearFromTime t + 1) \<le> DayFromYear 0" by (rule DayFromYear_mono)
    then show False using YearFromTime_spec [of t] b by simp
  qed
  moreover have "YearFromTime t \<le> 9999"
  proof (rule ccontr)
    assume "\<not> YearFromTime t \<le> 9999"
    then have "10000 \<le> YearFromTime t" by simp
    then have "DayFromYear 10000 \<le> DayFromYear (YearFromTime t)" by (rule DayFromYear_mono)
    then show False using YearFromTime_spec [of t] b by simp
  qed
  ultimately show ?thesis by simp
qed

lemma date_ranges:
  "0 \<le> MonthFromTime t + 1 \<and> MonthFromTime t + 1 < 100"
  "0 \<le> DateFromTime t \<and> DateFromTime t < 100"
proof -
  show "0 \<le> MonthFromTime t + 1 \<and> MonthFromTime t + 1 < 100"
    using month_range [of "InLeapYear t" "DayWithinYear t"] by (simp add: MonthFromTime_def)
  have "1 \<le> DateFromTime t \<and> DateFromTime t \<le> 31"
    unfolding DateFromTime_def
    using InLeapYear_cases [of t] DayWithinYear_range [of t]
    by (intro dateOf_range) simp_all
  then show "0 \<le> DateFromTime t \<and> DateFromTime t < 100" by simp
qed

lemma isoString_less:
  assumes f1: "fixedWidth t1" and f2: "fixedWidth t2" and lt: "t1 < t2"
  shows "isoString t1 < isoString t2"
proof -
  define s7 where "s7 = (\<lambda>t. pad 3 (msFromTime t) @ ''Z'')"
  define s6 where "s6 = (\<lambda>t. pad 2 (SecFromTime t) @ CHR ''.'' # s7 t)"
  define s5 where "s5 = (\<lambda>t. pad 2 (MinFromTime t) @ CHR '':'' # s6 t)"
  define s4 where "s4 = (\<lambda>t. pad 2 (HourFromTime t) @ CHR '':'' # s5 t)"
  define s3 where "s3 = (\<lambda>t. pad 2 (DateFromTime t) @ CHR ''T'' # s4 t)"
  define s2 where "s2 = (\<lambda>t. pad 2 (MonthFromTime t + 1) @ CHR ''-'' # s3 t)"
  define s1 where "s1 = (\<lambda>t. pad 4 (YearFromTime t) @ CHR ''-'' # s2 t)"
  have iso: "isoString t = s1 t" if "fixedWidth t" for t
    using fixedWidth_year [OF that]
    unfolding isoString_def yearString_def s1_def s2_def s3_def s4_def s5_def s6_def s7_def
    by simp
  have r7: "s7 t1 < s7 t2" if "msFromTime t1 < msFromTime t2"
    unfolding s7_def
    using field_less [of "msFromTime t1" 3 "msFromTime t2" "[]" "[]" "CHR ''Z''"]
      time_ranges(4) [of t1] time_ranges(4) [of t2] that by simp
  have r6: "s6 t1 < s6 t2"
    if "SecFromTime t1 < SecFromTime t2 \<or> (SecFromTime t1 = SecFromTime t2 \<and> s7 t1 < s7 t2)"
    unfolding s6_def
    using field_less [of "SecFromTime t1" 2 "SecFromTime t2" "s7 t1" "s7 t2" "CHR ''.''"]
      time_ranges(3) [of t1] time_ranges(3) [of t2] that by simp
  have r5: "s5 t1 < s5 t2"
    if "MinFromTime t1 < MinFromTime t2 \<or> (MinFromTime t1 = MinFromTime t2 \<and> s6 t1 < s6 t2)"
    unfolding s5_def
    using field_less [of "MinFromTime t1" 2 "MinFromTime t2" "s6 t1" "s6 t2" "CHR '':''"]
      time_ranges(2) [of t1] time_ranges(2) [of t2] that by simp
  have r4: "s4 t1 < s4 t2"
    if "HourFromTime t1 < HourFromTime t2 \<or> (HourFromTime t1 = HourFromTime t2 \<and> s5 t1 < s5 t2)"
    unfolding s4_def
    using field_less [of "HourFromTime t1" 2 "HourFromTime t2" "s5 t1" "s5 t2" "CHR '':''"]
      time_ranges(1) [of t1] time_ranges(1) [of t2] that by simp
  have r3: "s3 t1 < s3 t2"
    if "DateFromTime t1 < DateFromTime t2 \<or> (DateFromTime t1 = DateFromTime t2 \<and> s4 t1 < s4 t2)"
    unfolding s3_def
    using field_less [of "DateFromTime t1" 2 "DateFromTime t2" "s4 t1" "s4 t2" "CHR ''T''"]
      date_ranges(2) [of t1] date_ranges(2) [of t2] that by simp
  have r2: "s2 t1 < s2 t2"
    if "MonthFromTime t1 < MonthFromTime t2 \<or> (MonthFromTime t1 = MonthFromTime t2 \<and> s3 t1 < s3 t2)"
    unfolding s2_def
    using date_ranges(1) [of t1] date_ranges(1) [of t2] that by (intro field_less) auto
  have r1: "s1 t1 < s1 t2"
    if "YearFromTime t1 < YearFromTime t2 \<or> (YearFromTime t1 = YearFromTime t2 \<and> s2 t1 < s2 t2)"
    unfolding s1_def
    using field_less [of "YearFromTime t1" 4 "YearFromTime t2" "s2 t1" "s2 t2" "CHR ''-''"]
      fixedWidth_year [OF f1] fixedWidth_year [OF f2] that by simp
  from time_lex [OF lt] have "s1 t1 < s1 t2"
  proof
    assume "Day t1 < Day t2"
    from date_lex [OF this] show ?thesis using r1 r2 r3 by blast
  next
    assume a: "Day t1 = Day t2 \<and>
      (HourFromTime t1 < HourFromTime t2 \<or> (HourFromTime t1 = HourFromTime t2 \<and>
      (MinFromTime t1 < MinFromTime t2 \<or> (MinFromTime t1 = MinFromTime t2 \<and>
      (SecFromTime t1 < SecFromTime t2 \<or> (SecFromTime t1 = SecFromTime t2 \<and>
       msFromTime t1 < msFromTime t2))))))"
    then have "s4 t1 < s4 t2" using r4 r5 r6 r7 by blast
    moreover note same_Day [of t1 t2]
    ultimately show ?thesis using a r1 r2 r3 by blast
  qed
  then show ?thesis using iso [OF f1] iso [OF f2] by simp
qed

lemma isoString_less_iff:
  assumes "fixedWidth t1" "fixedWidth t2"
  shows "isoString t1 < isoString t2 \<longleftrightarrow> t1 < t2"
proof
  assume "t1 < t2"
  then show "isoString t1 < isoString t2" by (rule isoString_less [OF assms])
next
  assume l: "isoString t1 < isoString t2"
  show "t1 < t2"
  proof (rule ccontr)
    assume "\<not> t1 < t2"
    then consider "t1 = t2" | "t2 < t1" by linarith
    then show False
    proof cases
      case 1
      then show ?thesis using l by simp
    next
      case 2
      then have "isoString t2 < isoString t1" by (rule isoString_less [OF assms(2,1)])
      then show ?thesis using l by simp
    qed
  qed
qed

lemma isoString_le_iff:
  assumes "fixedWidth t1" "fixedWidth t2"
  shows "isoString t1 \<le> isoString t2 \<longleftrightarrow> t1 \<le> t2"
  using isoString_less_iff [OF assms(2,1)] by (simp add: not_less [symmetric])

section \<open>The cycle never throws\<close>

lemma notifyReminder_ok: "fst (notifyReminder e d s) = Inr ()"
  unfolding notifyReminder_def by (simp split: prod.splits sum.splits)

lemma forEach_ok: "fst (forEach e ds s) = Inr ()"
proof (induction ds arbitrary: s)
  case Nil
  show ?case by simp
next
  case (Cons d ds)
  obtain r s1 where n: "notifyReminder e d s = (r, s1)" by (cases "notifyReminder e d s")
  with notifyReminder_ok [of e d s] have "r = Inr ()" by simp
  with n Cons.IH [of s1] show ?case by simp
qed

lemma checkAndSendReminders_ok: "fst (checkAndSendReminders e s) = Inr ()"
  unfolding checkAndSendReminders_def by (simp split: prod.splits sum.splits)

text \<open>
  Claim C9. \<^verbatim>\<open>checkAndSendReminders\<close>, \<^verbatim>\<open>triggerManualCheck\<close> and
  \<^verbatim>\<open>resetAllNotifications\<close> return normally in every state and for every failure of the
  calls they await: no exception reaches the caller. A failed bulk update leaves the
  reminders as they were and is reported on the console.
\<close>

theorem operations_never_throw:
  "fst (checkAndSendReminders e s) = Inr ()
   \<and> fst (triggerManualCheck e s) = Inr ()
   \<and> fst (resetAllNotifications e s) = Inr ()
   \<and> snd (resetAllNotifications e s) =
       (if updateManyFails e then emit (LogResetError StoreError) s
        else emit (LogReset (length (filter (\<lambda>r. notified r = Some True) (reminders s))))
          (s\<lparr>reminders := map (\<lambda>r. if notified r = Some True then r\<lparr>notified := None\<rparr> else r)
             (reminders s)\<rparr>))"
  by (simp add: checkAndSendReminders_ok triggerManualCheck_def resetAllNotifications_def
      updateMany_def)

section \<open>Starting twice\<close>

text \<open>
  Claim C8. When the scheduler is running, \<^verbatim>\<open>startScheduler\<close> only writes a console line:
  no task is registered and \<^verbatim>\<open>isRunning\<close> stays true. When it is not running, it
  registers one task with the cron expression of every minute and sets \<^verbatim>\<open>isRunning\<close>.
  So a second call right after a first one changes neither the tasks nor the flag.
\<close>

theorem startScheduler_idempotent:
  "(isRunning s \<longrightarrow> startScheduler s = emit LogAlreadyRunning s)
   \<and> (\<not> isRunning s \<longrightarrow>
        startScheduler s = emit LogStarted (s\<lparr>jobs := jobs s @ [''* * * * *''], isRunning := True\<rparr>))
   \<and> jobs (startScheduler (startScheduler s)) = jobs (startScheduler s)
   \<and> isRunning (startScheduler (startScheduler s)) = isRunning (startScheduler s)
   \<and> isRunning (startScheduler s)"
  by (simp add: startScheduler_def emit_def everyMinute_def)

theorem startScheduler_idempotent_witness:
  "isRunning (startScheduler (exState []))
   \<and> startScheduler (startScheduler (exState [])) = emit LogAlreadyRunning (startScheduler (exState []))
   \<and> \<not> isRunning (exState [])
   \<and> jobs (startScheduler (exState [])) = [''* * * * *'']
   \<and> jobs (startScheduler (startScheduler (exState []))) = [''* * * * *'']"
  using startScheduler_idempotent [of "startScheduler (exState [])"]
    startScheduler_idempotent [of "exState []"]
  by (simp add: exState_def emit_def)

section \<open>What a cycle does\<close>

lemma iso_exNow: "isoString 1762000000000 = ''2025-11-01T12:26:40.000Z''"
  by code_simp

lemma iso_exNow_5: "isoString 1762000300000 = ''2025-11-01T12:31:40.000Z''"
  by code_simp

lemma validClock_exEnv: "validClock (exEnv exNow)"
  by (simp add: validClock_def exEnv_def exNow_def maxTime_def lookahead_def)

lemma scan_exNow:
  "scan exNow s = filter (matches ''2025-11-01T12:26:40.000Z'' ''2025-11-01T12:31:40.000Z'') (reminders s)"
  by (simp add: scan_def exNow_def lookahead_def iso_exNow iso_exNow_5)

text \<open>With a valid clock and a query that succeeds, the cycle is the loop over the scanned
  reminders.\<close>

lemma checkBody_scan:
  assumes "validClock e" "\<not> findFails e"
  shows "checkBody e s =
    (if scan (now e) s = [] then (Inr (), s)
     else forEach e (map (populate (users s)) (scan (now e) s))
            (emit (LogFound (length (scan (now e) s))) s))"
  using assms
  by (simp add: checkBody_def validClock_def toISOString_def Reminder_find_def scan_def)

lemma checkAndSendReminders_scan:
  assumes "validClock e" "\<not> findFails e"
  shows "snd (checkAndSendReminders e s) =
    (if scan (now e) s = [] then s
     else snd (forEach e (map (populate (users s)) (scan (now e) s))
            (emit (LogFound (length (scan (now e) s))) s)))"
proof (cases "scan (now e) s = []")
  case True
  then show ?thesis
    by (simp add: checkAndSendReminders_def checkBody_scan [OF assms])
next
  case False
  obtain r s1 where f: "forEach e (map (populate (users s)) (scan (now e) s))
            (emit (LogFound (length (scan (now e) s))) s) = (r, s1)"
    by (cases "forEach e (map (populate (users s)) (scan (now e) s))
            (emit (LogFound (length (scan (now e) s))) s)")
  with forEach_ok [of e "map (populate (users s)) (scan (now e) s)"
      "emit (LogFound (length (scan (now e) s))) s"]
  have "r = Inr ()" by simp
  with f False show ?thesis
    by (simp add: checkAndSendReminders_def checkBody_scan [OF assms])
qed

lemma checkBody_findFails:
  assumes "findFails e"
  shows "\<exists>x. checkBody e s = (Inl x, s)"
  using assms by (simp add: checkBody_def Reminder_find_def split: sum.splits)

text \<open>
  Claim C7. A cycle whose query fails ends at once: the state is the one before the cycle
  with one more console line, the report of the error. A cycle whose scan finds nothing
  leaves the state as it was. In both cases no reminder has changed, nothing was
  dispatched, and a scan of the resulting state finds what a scan of the state before
  would have found: the next tick starts from scratch.
\<close>

theorem failed_or_empty_scan_changes_nothing:
  "(findFails e \<longrightarrow>
      (\<exists>x. snd (checkAndSendReminders e s) = emit (LogCheckError x) s))
   \<and> (validClock e \<and> \<not> findFails e \<and> scan (now e) s = [] \<longrightarrow>
      snd (checkAndSendReminders e s) = s)
   \<and> (findFails e \<or> (validClock e \<and> scan (now e) s = []) \<longrightarrow>
      reminders (snd (checkAndSendReminders e s)) = reminders s
      \<and> dispatches i (trace (snd (checkAndSendReminders e s))) = dispatches i (trace s)
      \<and> scan t (snd (checkAndSendReminders e s)) = scan t s)"
proof -
  have a: "\<exists>x. snd (checkAndSendReminders e s) = emit (LogCheckError x) s" if "findFails e"
  proof -
    from checkBody_findFails [OF that, of s] obtain x where "checkBody e s = (Inl x, s)" ..
    then have "snd (checkAndSendReminders e s) = emit (LogCheckError x) s"
      by (simp add: checkAndSendReminders_def)
    then show ?thesis ..
  qed
  have b: "snd (checkAndSendReminders e s) = s"
    if "validClock e" "\<not> findFails e" "scan (now e) s = []"
    using that by (simp add: checkAndSendReminders_scan)
  have c: "reminders s' = reminders s \<and> dispatches i (trace s') = dispatches i (trace s)
      \<and> scan t s' = scan t s" if "s' = emit (LogCheckError x) s" for s' x
    using that by (simp add: emit_def dispatches_def scan_def)
  show ?thesis
  proof (intro conjI impI)
    assume "findFails e"
    then show "\<exists>x. snd (checkAndSendReminders e s) = emit (LogCheckError x) s" by (rule a)
  next
    assume "validClock e \<and> \<not> findFails e \<and> scan (now e) s = []"
    then show "snd (checkAndSendReminders e s) = s" using b by simp
  next
    assume h: "findFails e \<or> (validClock e \<and> scan (now e) s = [])"
    have "reminders (snd (checkAndSendReminders e s)) = reminders s
      \<and> dispatches i (trace (snd (checkAndSendReminders e s))) = dispatches i (trace s)
      \<and> scan t (snd (checkAndSendReminders e s)) = scan t s"
    proof (cases "findFails e")
      case True
      from a [OF True] obtain x where "snd (checkAndSendReminders e s) = emit (LogCheckError x) s" ..
      then show ?thesis by (rule c)
    next
      case False
      with h b show ?thesis by simp
    qed
    then show "reminders (snd (checkAndSendReminders e s)) = reminders s"
      and "dispatches i (trace (snd (checkAndSendReminders e s))) = dispatches i (trace s)"
      and "scan t (snd (checkAndSendReminders e s)) = scan t s" by simp_all
  qed
qed

theorem failed_or_empty_scan_changes_nothing_witness:
  "findFails ((exEnv exNow)\<lparr>findFails := True\<rparr>)
   \<and> snd (checkAndSendReminders ((exEnv exNow)\<lparr>findFails := True\<rparr>)
        (exState [exReminder 1 ''2025-11-01T12:28:40.000Z'' None]))
      = emit (LogCheckError StoreError) (exState [exReminder 1 ''2025-11-01T12:28:40.000Z'' None])
   \<and> validClock (exEnv exNow) \<and> \<not> findFails (exEnv exNow)
   \<and> scan (now (exEnv exNow)) (exState [exReminder 1 ''2025-11-01T12:58:40.000Z'' None]) = []
   \<and> snd (checkAndSendReminders (exEnv exNow)
        (exState [exReminder 1 ''2025-11-01T12:58:40.000Z'' None]))
      = exState [exReminder 1 ''2025-11-01T12:58:40.000Z'' None]"
proof -
  have v: "validClock (exEnv exNow)" by (rule validClock_exEnv)
  have f: "findFails ((exEnv exNow)\<lparr>findFails := True\<rparr>)" "\<not> findFails (exEnv exNow)"
    by (simp_all add: exEnv_def)
  have n: "scan (now (exEnv exNow)) (exState [exReminder 1 ''2025-11-01T12:58:40.000Z'' None]) = []"
    by (simp add: exEnv_def scan_exNow exState_def exReminder_def matches_def)
  from failed_or_empty_scan_changes_nothing
    [of "(exEnv exNow)\<lparr>findFails := True\<rparr>" "exState [exReminder 1 ''2025-11-01T12:28:40.000Z'' None]"] f
  obtain x where x: "snd (checkAndSendReminders ((exEnv exNow)\<lparr>findFails := True\<rparr>)
        (exState [exReminder 1 ''2025-11-01T12:28:40.000Z'' None]))
      = emit (LogCheckError x) (exState [exReminder 1 ''2025-11-01T12:28:40.000Z'' None])"
    by blast
  have "x = StoreError"
    using x
    by (simp add: checkAndSendReminders_def checkBody_def toISOString_def exEnv_def exNow_def
        maxTime_def lookahead_def Reminder_find_def emit_def exState_def)
  with x v f n
    failed_or_empty_scan_changes_nothing
      [of "exEnv exNow" "exState [exReminder 1 ''2025-11-01T12:58:40.000Z'' None]"]
  show ?thesis by simp
qed

section \<open>A cycle on the example data\<close>

lemma cycle_exNow_one:
  assumes "reminders s = [exReminder 1 ''2025-11-01T12:28:40.000Z'' None]" "users s = [7]"
  shows "snd (checkAndSendReminders (exEnv exNow) s)
   = s\<lparr>reminders := [exReminder 1 ''2025-11-01T12:28:40.000Z'' (Some True)],
       trace := trace s @ [LogFound 1, Dispatch 1, LogSent 1]\<rparr>"
proof -
  have sc: "scan (now (exEnv exNow)) s = [exReminder 1 ''2025-11-01T12:28:40.000Z'' None]"
    by (simp add: exEnv_def scan_exNow exReminder_def matches_def assms)
  have nf: "\<not> findFails (exEnv exNow)" by (simp add: exEnv_def)
  show ?thesis
    unfolding checkAndSendReminders_scan [OF validClock_exEnv nf] sc
    by (simp add: populate_def exReminder_def notifyReminder_def notifyBody_def
        sendReminderNotification_def save_def emit_def exEnv_def assms)
qed

section \<open>The loop, iteration by iteration\<close>

lemma notifyReminder_effect:
  assumes "rid (fst d) \<in> set (map rid (reminders s))"
  shows "snd (notifyReminder e d s) =
    s\<lparr>reminders := map (markAll (if delivered e d then [rid (fst d)] else [])) (reminders s),
      trace := trace s @ eventsFor e d\<rparr>"
proof -
  have m0: "map (markAll []) rs = rs" for rs
    by (induction rs) (simp_all add: markAll_def)
  have m1: "map (\<lambda>x. if rid x = i then x\<lparr>notified := Some True\<rparr> else x) rs = map (markAll [i]) rs"
    for i rs
    by (simp add: markAll_def)
  show ?thesis
  proof (cases "snd d")
    case None
    then show ?thesis
      by (simp add: notifyReminder_def notifyBody_def eventsFor_def delivered_def emit_def m0)
  next
    case (Some u)
    show ?thesis
    proof (cases "sendFails e (rid (fst d))")
      case True
      then show ?thesis using Some
        by (simp add: notifyReminder_def notifyBody_def sendReminderNotification_def
            eventsFor_def delivered_def emit_def m0)
    next
      case False
      show ?thesis
      proof (cases "saveFails e (rid (fst d))")
        case True
        then show ?thesis using Some False
          by (simp add: notifyReminder_def notifyBody_def sendReminderNotification_def
              save_def eventsFor_def delivered_def emit_def m0)
      next
        case sv: False
        have "rid (fst d) \<in> rid ` set (reminders s)" using assms by simp
        then show ?thesis using Some False sv
          by (simp add: notifyReminder_def notifyBody_def sendReminderNotification_def
              save_def eventsFor_def delivered_def emit_def markAll_def cong: if_cong)
      qed
    qed
  qed
qed

lemma markAll_markAll: "markAll is (markAll js x) = markAll (js @ is) x"
  by (simp add: markAll_def)

lemma rid_markAll: "rid (markAll is x) = rid x"
  by (simp add: markAll_def)

lemma forEach_effect:
  assumes "\<forall>d\<in>set ds. rid (fst d) \<in> set (map rid (reminders s))"
  shows "snd (forEach e ds s) =
    s\<lparr>reminders := map (markAll (map (\<lambda>d. rid (fst d)) (filter (delivered e) ds))) (reminders s),
      trace := trace s @ concat (map (eventsFor e) ds)\<rparr>"
  using assms
proof (induction ds arbitrary: s)
  case Nil
  have "map (markAll []) (reminders s) = reminders s"
    by (induction "reminders s") (simp_all add: markAll_def map_idI)
  then show ?case by simp
next
  case (Cons d ds)
  define s1 where "s1 = snd (notifyReminder e d s)"
  have hd: "rid (fst d) \<in> set (map rid (reminders s))" using Cons.prems by simp
  have s1: "s1 = s\<lparr>reminders := map (markAll (if delivered e d then [rid (fst d)] else [])) (reminders s),
      trace := trace s @ eventsFor e d\<rparr>"
    unfolding s1_def by (rule notifyReminder_effect [OF hd])
  have ids: "map rid (reminders s1) = map rid (reminders s)"
    unfolding s1 by (simp add: rid_markAll o_def)
  have "\<forall>x\<in>set ds. rid (fst x) \<in> set (map rid (reminders s1))"
    unfolding ids using Cons.prems by simp
  note ih = Cons.IH [OF this]
  have step: "snd (forEach e (d # ds) s) = snd (forEach e ds s1)"
    using notifyReminder_ok [of e d s] unfolding s1_def
    by (cases "notifyReminder e d s") simp
  show ?case
    unfolding step ih unfolding s1
    by (simp add: markAll_markAll o_def)
qed

lemma cycle_effect:
  assumes "validClock e" "\<not> findFails e"
  shows "snd (checkAndSendReminders e s) =
    (if scan (now e) s = [] then s
     else s\<lparr>reminders :=
            map (markAll (map (\<lambda>d. rid (fst d))
              (filter (delivered e) (map (populate (users s)) (scan (now e) s))))) (reminders s),
          trace := trace s @ LogFound (length (scan (now e) s))
            # concat (map (eventsFor e) (map (populate (users s)) (scan (now e) s)))\<rparr>)"
proof (cases "scan (now e) s = []")
  case True
  then show ?thesis by (simp add: checkAndSendReminders_scan [OF assms])
next
  case False
  define s0 where "s0 = emit (LogFound (length (scan (now e) s))) s"
  have r0: "reminders s0 = reminders s" by (simp add: s0_def emit_def)
  have "\<forall>d\<in>set (map (populate (users s)) (scan (now e) s)). rid (fst d) \<in> set (map rid (reminders s0))"
    unfolding r0 by (auto simp add: scan_def populate_def)
  from forEach_effect [OF this, of e] False show ?thesis
    unfolding checkAndSendReminders_scan [OF assms] s0_def
    by (simp add: emit_def)
qed

section \<open>A failing dispatch does not stop the loop\<close>

text \<open>
  Claim C6. In a cycle whose query succeeds, the scanned reminders are handled one after
  the other, in scan order, and what happens to one of them depends on its own owner,
  notification and save only: the trace of the cycle is the line with the number found
  followed by the events of each reminder in turn, and exactly the reminders whose own
  notification and save succeeded are marked. In particular, when three reminders are
  due and the notification of the second one fails, the first and the third are
  dispatched and marked, and the second is dispatched, reported and left as it was.
\<close>

theorem dispatch_failure_is_isolated:
  assumes "validClock e" "\<not> findFails e"
  shows "snd (checkAndSendReminders e s) =
      (if scan (now e) s = [] then s
       else s\<lparr>reminders :=
              map (markAll (map (\<lambda>d. rid (fst d))
                (filter (delivered e) (map (populate (users s)) (scan (now e) s))))) (reminders s),
            trace := trace s @ LogFound (length (scan (now e) s))
              # concat (map (eventsFor e) (map (populate (users s)) (scan (now e) s)))\<rparr>)
    \<and> (scan (now e) s = [a, b, c] \<and> distinct [rid a, rid b, rid c]
        \<and> userId a \<in> set (users s) \<and> userId b \<in> set (users s) \<and> userId c \<in> set (users s)
        \<and> sendFails e (rid b) \<and> \<not> sendFails e (rid a) \<and> \<not> sendFails e (rid c)
        \<and> \<not> saveFails e (rid a) \<and> \<not> saveFails e (rid c) \<longrightarrow>
        trace (snd (checkAndSendReminders e s)) = trace s @
          [LogFound 3, Dispatch (rid a), LogSent (rid a),
           Dispatch (rid b), LogFailed (rid b) TransportError,
           Dispatch (rid c), LogSent (rid c)]
        \<and> reminders (snd (checkAndSendReminders e s)) = map (markAll [rid a, rid c]) (reminders s)
        \<and> markAll [rid a, rid c] a = a\<lparr>notified := Some True\<rparr>
        \<and> markAll [rid a, rid c] b = b
        \<and> markAll [rid a, rid c] c = c\<lparr>notified := Some True\<rparr>)"
proof (intro conjI impI)
  show "snd (checkAndSendReminders e s) =
      (if scan (now e) s = [] then s
       else s\<lparr>reminders :=
              map (markAll (map (\<lambda>d. rid (fst d))
                (filter (delivered e) (map (populate (users s)) (scan (now e) s))))) (reminders s),
            trace := trace s @ LogFound (length (scan (now e) s))
              # concat (map (eventsFor e) (map (populate (users s)) (scan (now e) s)))\<rparr>)"
    by (rule cycle_effect [OF assms])
next
  assume h: "scan (now e) s = [a, b, c] \<and> distinct [rid a, rid b, rid c]
        \<and> userId a \<in> set (users s) \<and> userId b \<in> set (users s) \<and> userId c \<in> set (users s)
        \<and> sendFails e (rid b) \<and> \<not> sendFails e (rid a) \<and> \<not> sendFails e (rid c)
        \<and> \<not> saveFails e (rid a) \<and> \<not> saveFails e (rid c)"
  then have sc: "scan (now e) s = [a, b, c]" by simp
  have eff: "snd (checkAndSendReminders e s) =
      s\<lparr>reminders := map (markAll [rid a, rid c]) (reminders s),
        trace := trace s @ [LogFound 3, Dispatch (rid a), LogSent (rid a),
           Dispatch (rid b), LogFailed (rid b) TransportError,
           Dispatch (rid c), LogSent (rid c)]\<rparr>"
    unfolding cycle_effect [OF assms] sc using h
    by (simp add: populate_def delivered_def eventsFor_def)
  show "trace (snd (checkAndSendReminders e s)) = trace s @
          [LogFound 3, Dispatch (rid a), LogSent (rid a),
           Dispatch (rid b), LogFailed (rid b) TransportError,
           Dispatch (rid c), LogSent (rid c)]"
    and "reminders (snd (checkAndSendReminders e s)) = map (markAll [rid a, rid c]) (reminders s)"
    unfolding eff by simp_all
  show "markAll [rid a, rid c] a = a\<lparr>notified := Some True\<rparr>"
    and "markAll [rid a, rid c] b = b"
    and "markAll [rid a, rid c] c = c\<lparr>notified := Some True\<rparr>"
    using h by (auto simp add: markAll_def)
qed

theorem dispatch_failure_is_isolated_witness:
  "validClock (exEnvSecondFails exNow)
   \<and> \<not> findFails (exEnvSecondFails exNow)
   \<and> scan exNow (exState [exReminder 1 ''2025-11-01T12:28:40.000Z'' None,
         exReminder 2 ''2025-11-01T12:29:40.000Z'' None,
         exReminder 3 ''2025-11-01T12:30:40.000Z'' (Some False)])
      = [exReminder 1 ''2025-11-01T12:28:40.000Z'' None,
         exReminder 2 ''2025-11-01T12:29:40.000Z'' None,
         exReminder 3 ''2025-11-01T12:30:40.000Z'' (Some False)]
   \<and> trace (snd (checkAndSendReminders (exEnvSecondFails exNow)
       (exState [exReminder 1 ''2025-11-01T12:28:40.000Z'' None,
         exReminder 2 ''2025-11-01T12:29:40.000Z'' None,
         exReminder 3 ''2025-11-01T12:30:40.000Z'' (Some False)])))
     = [LogFound 3, Dispatch 1, LogSent 1, Dispatch 2, LogFailed 2 TransportError,
          Dispatch 3, LogSent 3]
   \<and> reminders (snd (checkAndSendReminders (exEnvSecondFails exNow)
       (exState [exReminder 1 ''2025-11-01T12:28:40.000Z'' None,
         exReminder 2 ''2025-11-01T12:29:40.000Z'' None,
         exReminder 3 ''2025-11-01T12:30:40.000Z'' (Some False)])))
     = [exReminder 1 ''2025-11-01T12:28:40.000Z'' (Some True),
         exReminder 2 ''2025-11-01T12:29:40.000Z'' None,
         exReminder 3 ''2025-11-01T12:30:40.000Z'' (Some True)]"
proof -
  define e where "e = exEnvSecondFails exNow"
  define a where "a = exReminder 1 ''2025-11-01T12:28:40.000Z'' None"
  define b where "b = exReminder 2 ''2025-11-01T12:29:40.000Z'' None"
  define c where "c = exReminder 3 ''2025-11-01T12:30:40.000Z'' (Some False)"
  define s where "s = exState [a, b, c]"
  have v: "validClock e"
    using validClock_exEnv by (simp add: e_def exEnvSecondFails_def validClock_def)
  have f: "\<not> findFails e" by (simp add: e_def exEnvSecondFails_def exEnv_def)
  have n: "now e = exNow" by (simp add: e_def exEnvSecondFails_def exEnv_def)
  have sc: "scan exNow s = [a, b, c]"
    by (simp add: s_def a_def b_def c_def scan_exNow exState_def exReminder_def matches_def)
  have h: "scan (now e) s = [a, b, c] \<and> distinct [rid a, rid b, rid c]
        \<and> userId a \<in> set (users s) \<and> userId b \<in> set (users s) \<and> userId c \<in> set (users s)
        \<and> sendFails e (rid b) \<and> \<not> sendFails e (rid a) \<and> \<not> sendFails e (rid c)
        \<and> \<not> saveFails e (rid a) \<and> \<not> saveFails e (rid c)"
    unfolding n sc
    by (simp add: e_def exEnvSecondFails_def exEnv_def a_def b_def c_def s_def exState_def
        exReminder_def)
  note th = dispatch_failure_is_isolated [OF v f, of s a b c, THEN conjunct2, rule_format, OF h]
  have t: "trace (snd (checkAndSendReminders e s)) =
      [LogFound 3, Dispatch 1, LogSent 1, Dispatch 2, LogFailed 2 TransportError,
          Dispatch 3, LogSent 3]"
    using th by (simp add: a_def b_def c_def s_def exState_def exReminder_def)
  have r: "reminders (snd (checkAndSendReminders e s)) =
      [exReminder 1 ''2025-11-01T12:28:40.000Z'' (Some True),
         exReminder 2 ''2025-11-01T12:29:40.000Z'' None,
         exReminder 3 ''2025-11-01T12:30:40.000Z'' (Some True)]"
    using th by (simp add: a_def b_def c_def s_def exState_def exReminder_def)
  show ?thesis
    using v f sc t r unfolding e_def s_def a_def b_def c_def by simp
qed

section \<open>The due window\<close>

lemma isoString_values:
  "isoString 1762000120000 = ''2025-11-01T12:28:40.000Z''"
  "isoString 1762000180000 = ''2025-11-01T12:29:40.000Z''"
  "isoString 1762000240000 = ''2025-11-01T12:30:40.000Z''"
  "isoString 1762000540000 = ''2025-11-01T12:35:40.000Z''"
  "isoString 1761999940000 = ''2025-11-01T12:25:40.000Z''"
  by code_simp+

lemma isoString_far_values:
  "isoString 0 = ''1970-01-01T00:00:00.000Z''"
  "isoString 253402300800000 = ''+010000-01-01T00:00:00.000Z''"
  "isoString 253402300740000 = ''9999-12-31T23:59:00.000Z''"
  "isoString 253402300770000 = ''9999-12-31T23:59:30.000Z''"
  "isoString 253402301040000 = ''+010000-01-01T00:04:00.000Z''"
  by code_simp+

lemma fixedWidth_ex:
  "fixedWidth 1762000000000" "fixedWidth 1762000300000" "fixedWidth 1762000120000"
  "fixedWidth 1762000180000"
  by (simp_all add: fixedWidth_def minFixed_def maxFixed_def)

lemma matches_window:
  assumes "fixedWidth t" "fixedWidth (t + lookahead)" "fixedWidth a" "datetime r = isoString a"
  shows "matches (isoString t) (isoString (t + lookahead)) r \<longleftrightarrow>
     t \<le> a \<and> a \<le> t + lookahead \<and> notified r \<noteq> Some True"
  unfolding matches_def assms(4)
  by (simp add: isoString_le_iff [OF assms(1,3)] isoString_le_iff [OF assms(3,2)])

text \<open>
  Claim C10 (amended). The query compares \<^verbatim>\<open>datetime\<close> with the bounds as strings. For
  two instants between 0000-01-01T00:00:00.000Z and 9999-12-31T23:59:59.999Z, where the
  rendering has its 24-character form, the renderings are ordered as the instants are. So
  when the clock, the instant five minutes after the clock and the due time all lie in
  that range, and \<^verbatim>\<open>datetime\<close> is the rendering of the due time, the query matches the
  reminder exactly when its due time lies in the five minutes from the clock on and it
  is not marked.
\<close>

theorem iso_order_is_time_order:
  assumes "fixedWidth a" "fixedWidth b" "fixedWidth t" "fixedWidth (t + lookahead)"
    and "datetime r = isoString a"
  shows "(isoString a \<le> isoString b \<longleftrightarrow> a \<le> b)
    \<and> (isoString a < isoString b \<longleftrightarrow> a < b)
    \<and> (matches (isoString t) (isoString (t + lookahead)) r \<longleftrightarrow>
         t \<le> a \<and> a \<le> t + lookahead \<and> notified r \<noteq> Some True)"
  using isoString_le_iff [OF assms(1,2)] isoString_less_iff [OF assms(1,2)]
    matches_window [OF assms(3,4,1,5)]
  by simp

theorem iso_order_is_time_order_witness:
  "fixedWidth 1762000120000 \<and> fixedWidth 1762000300000 \<and> fixedWidth 1762000000000
   \<and> fixedWidth (1762000000000 + lookahead)
   \<and> datetime (exReminder 1 ''2025-11-01T12:28:40.000Z'' None) = isoString 1762000120000
   \<and> isoString 1762000120000 < isoString 1762000300000
   \<and> matches (isoString 1762000000000) (isoString (1762000000000 + lookahead))
        (exReminder 1 ''2025-11-01T12:28:40.000Z'' None)"
proof -
  have l: "(1762000000000::int) + lookahead = 1762000300000" by (simp add: lookahead_def)
  have d: "datetime (exReminder 1 ''2025-11-01T12:28:40.000Z'' None) = isoString 1762000120000"
    by (simp add: exReminder_def isoString_values)
  have f: "fixedWidth (1762000000000 + lookahead)" unfolding l by (rule fixedWidth_ex)
  from iso_order_is_time_order [OF fixedWidth_ex(3) fixedWidth_ex(2) fixedWidth_ex(1) f d]
  show ?thesis using fixedWidth_ex d f by (simp add: exReminder_def lookahead_def)
qed

text \<open>
  The claim as it stands, for every pair of instants, fails where the year takes the
  expanded form: the first instant of the year 10000 is rendered with a leading plus sign,
  which sorts before every digit. A scan one minute before that instant, with its clock
  still in the range of four-digit years, has an upper bound that sorts below its lower
  bound and misses a reminder due thirty seconds later.
\<close>

theorem iso_order_counterexample:
  "(0::int) < 253402300800000 \<and> isoString 253402300800000 < isoString 0
   \<and> (253402300740000::int) \<le> 253402300770000
   \<and> (253402300770000::int) \<le> 253402300740000 + lookahead
   \<and> \<not> matches (isoString 253402300740000) (isoString (253402300740000 + lookahead))
        (exReminder 1 (isoString 253402300770000) None)"
proof -
  have l: "(253402300740000::int) + lookahead = 253402301040000" by (simp add: lookahead_def)
  show ?thesis
    unfolding l isoString_far_values
    by (simp add: matches_def exReminder_def)
qed

text \<open>
  Claim C5 (amended). Let the clock \<open>t\<close> and the instant five minutes after it lie in the
  range of four-digit years, and let the \<^verbatim>\<open>datetime\<close> of every stored reminder be the
  rendering of its due time, which lies in that range too. Then the query of a cycle run
  at \<open>t\<close> returns exactly the stored reminders that are due in \<open>[t, t + 5 minutes]\<close> and
  not marked. So a reminder due three minutes after \<open>t0\<close> and not marked is found by
  every cycle run from \<open>t0\<close> up to its due time; it is not found once it is marked, nor
  while it is due more than five minutes ahead, nor by a cycle that runs after its due
  time.
\<close>

theorem scan_selects_due_window:
  assumes "fixedWidth t" "fixedWidth (t + lookahead)"
    and "\<forall>r\<in>set (reminders s). fixedWidth (due r) \<and> datetime r = isoString (due r)"
  shows "scan t s =
      filter (\<lambda>r. t \<le> due r \<and> due r \<le> t + lookahead \<and> notified r \<noteq> Some True) (reminders s)
    \<and> (\<not> findFails e \<longrightarrow> Reminder_find e (isoString t) (isoString (t + lookahead)) s
          = Inr (map (populate (users s)) (scan t s)))
    \<and> (\<forall>r\<in>set (reminders s). due r = t0 + 180000 \<and> notified r = Some False
          \<and> t0 \<le> t \<and> t \<le> t0 + 180000 \<longrightarrow> r \<in> set (scan t s))
    \<and> (\<forall>r\<in>set (reminders s). notified r = Some True \<longrightarrow> r \<notin> set (scan t s))
    \<and> (\<forall>r\<in>set (reminders s). t + lookahead < due r \<longrightarrow> r \<notin> set (scan t s))
    \<and> (\<forall>r\<in>set (reminders s). due r < t \<longrightarrow> r \<notin> set (scan t s))"
proof -
  have m: "matches (isoString t) (isoString (t + lookahead)) r \<longleftrightarrow>
      t \<le> due r \<and> due r \<le> t + lookahead \<and> notified r \<noteq> Some True"
    if "r \<in> set (reminders s)" for r
    using assms(3) that by (intro matches_window [OF assms(1,2)]) simp_all
  have sc: "scan t s =
      filter (\<lambda>r. t \<le> due r \<and> due r \<le> t + lookahead \<and> notified r \<noteq> Some True) (reminders s)"
    unfolding scan_def using m by (intro filter_cong) simp_all
  have f: "\<not> findFails e \<longrightarrow> Reminder_find e (isoString t) (isoString (t + lookahead)) s
          = Inr (map (populate (users s)) (scan t s))"
    by (simp add: Reminder_find_def scan_def)
  have l: "(0::int) \<le> lookahead" "(180000::int) \<le> lookahead" by (simp_all add: lookahead_def)
  show ?thesis
    unfolding sc [symmetric]
    apply (intro conjI f refl)
    unfolding sc using l by auto
qed

theorem scan_selects_due_window_witness:
  "fixedWidth 1762000000000 \<and> fixedWidth (1762000000000 + lookahead)
   \<and> fixedWidth 1762000180000
   \<and> datetime (exReminder 1 ''2025-11-01T12:29:40.000Z'' (Some False)) = isoString 1762000180000
   \<and> \<not> findFails (exEnv 1762000000000)
   \<and> (1762000000000::int) \<le> 1762000000000 \<and> (1762000000000::int) \<le> 1762000000000 + 180000
   \<and> exReminder 1 ''2025-11-01T12:29:40.000Z'' (Some False)
       \<in> set (scan 1762000000000 (exState [exReminder 1 ''2025-11-01T12:29:40.000Z'' (Some False)]))
   \<and> Reminder_find (exEnv 1762000000000) (isoString 1762000000000)
        (isoString (1762000000000 + lookahead))
        (exState [exReminder 1 ''2025-11-01T12:29:40.000Z'' (Some False)])
      = Inr [(exReminder 1 ''2025-11-01T12:29:40.000Z'' (Some False), Some 7)]"
proof -
  define s where "s = exState [exReminder 1 ''2025-11-01T12:29:40.000Z'' (Some False)]"
  have l: "(1762000000000::int) + lookahead = 1762000300000" by (simp add: lookahead_def)
  have f: "fixedWidth (1762000000000 + lookahead)" unfolding l by (rule fixedWidth_ex)
  have w: "\<forall>r\<in>set (reminders s). fixedWidth ((\<lambda>r. 1762000180000) r)
      \<and> datetime r = isoString ((\<lambda>r. 1762000180000) r)"
    using fixedWidth_ex(4) by (simp add: s_def exState_def exReminder_def isoString_values)
  have nf: "\<not> findFails (exEnv 1762000000000)" by (simp add: exEnv_def)
  note th = scan_selects_due_window [OF fixedWidth_ex(1) f w, of "exEnv 1762000000000" 1762000000000]
  have rs: "reminders s = [exReminder 1 ''2025-11-01T12:29:40.000Z'' (Some False)]"
    by (simp add: s_def exState_def)
  have sc: "scan 1762000000000 s = [exReminder 1 ''2025-11-01T12:29:40.000Z'' (Some False)]"
    unfolding th [THEN conjunct1] rs l by (simp add: exReminder_def)
  have "Reminder_find (exEnv 1762000000000) (isoString 1762000000000)
        (isoString (1762000000000 + lookahead)) s = Inr (map (populate (users s)) (scan 1762000000000 s))"
    using th [THEN conjunct2, THEN conjunct1] nf by (rule mp)
  then have rf: "Reminder_find (exEnv 1762000000000) (isoString 1762000000000)
        (isoString (1762000000000 + lookahead)) s
      = Inr [(exReminder 1 ''2025-11-01T12:29:40.000Z'' (Some False), Some 7)]"
    unfolding sc by (simp add: populate_def s_def exState_def exReminder_def)
  have w': "datetime (exReminder 1 ''2025-11-01T12:29:40.000Z'' (Some False)) = isoString 1762000180000"
    by (simp add: exReminder_def isoString_values)
  have m: "exReminder 1 ''2025-11-01T12:29:40.000Z'' (Some False) \<in> set (scan 1762000000000 s)"
    unfolding sc by simp
  show ?thesis
    unfolding s_def [symmetric]
    by (intro conjI fixedWidth_ex(1) fixedWidth_ex(4) f w' nf m rf) simp_all
qed

text \<open>
  As the claim stands, the reminder would be found by any cycle run at or after \<open>t0\<close>.
  A cycle run four minutes after \<open>t0\<close>, one minute after the reminder was due, does not
  find it: the lower bound of the query is the clock of that cycle. And the selection is
  by strings: a cycle run at 9999-12-31T23:59:00.000Z does not find a reminder due
  thirty seconds later, because its upper bound is rendered with the expanded year.
\<close>

theorem late_cycle_counterexample:
  "datetime (exReminder 1 ''2025-11-01T12:29:40.000Z'' (Some False)) = isoString (exNow + 180000)
   \<and> exNow \<le> exNow + 240000
   \<and> scan (exNow + 240000) (exState [exReminder 1 ''2025-11-01T12:29:40.000Z'' (Some False)]) = []
   \<and> fixedWidth 253402300740000 \<and> fixedWidth 253402300770000
   \<and> (253402300740000::int) \<le> 253402300770000
   \<and> (253402300770000::int) \<le> 253402300740000 + lookahead
   \<and> scan 253402300740000 (exState [exReminder 1 (isoString 253402300770000) None]) = []"
proof -
  have v: "exNow + 180000 = 1762000180000" "exNow + 240000 = 1762000240000"
    "(1762000240000::int) + lookahead = 1762000540000"
    "(253402300740000::int) + lookahead = 253402301040000"
    by (simp_all add: exNow_def lookahead_def)
  have a: "datetime (exReminder 1 ''2025-11-01T12:29:40.000Z'' (Some False)) = isoString (exNow + 180000)
   \<and> exNow \<le> exNow + 240000
   \<and> scan (exNow + 240000) (exState [exReminder 1 ''2025-11-01T12:29:40.000Z'' (Some False)]) = []"
    unfolding v scan_def isoString_values
    by (simp add: exReminder_def exState_def matches_def exNow_def)
  have b: "fixedWidth 253402300740000 \<and> fixedWidth 253402300770000
   \<and> (253402300740000::int) \<le> 253402300770000
   \<and> (253402300770000::int) \<le> 253402300740000 + lookahead"
    by (simp add: fixedWidth_def minFixed_def maxFixed_def lookahead_def)
  have c: "scan 253402300740000 (exState [exReminder 1 (isoString 253402300770000) None]) = []"
    unfolding scan_def v isoString_far_values
    by (simp add: exReminder_def exState_def matches_def)
  from a b c show ?thesis by (intro conjI) simp_all
qed

section \<open>Reset\<close>

text \<open>
  Claim C4 (amended). After a bulk reset that succeeds, no stored reminder is marked, so
  the next scan returns every stored reminder whose \<^verbatim>\<open>datetime\<close> lies between the two
  bounds of the query, whether it had been notified before or not, and with its flag
  cleared. Only the stored flag and the due time decide; the trace plays no part.
\<close>

theorem reset_then_scan:
  assumes "\<not> updateManyFails e"
  shows "scan t (snd (resetAllNotifications e s)) =
    map unsetNotified
      (filter (\<lambda>r. isoString t \<le> datetime r \<and> datetime r \<le> isoString (t + lookahead))
         (reminders s))"
proof -
  have r: "reminders (snd (resetAllNotifications e s)) = map unsetNotified (reminders s)"
    using assms
    by (simp add: resetAllNotifications_def updateMany_def emit_def unsetNotified_def)
  have m: "matches lo hi (unsetNotified x) = (lo \<le> datetime x \<and> datetime x \<le> hi)" for lo hi x
    by (simp add: matches_def unsetNotified_def)
  show ?thesis
    unfolding scan_def r by (simp add: filter_map o_def m)
qed

theorem reset_then_scan_witness:
  "\<not> updateManyFails (exEnv exNow)
   \<and> scan exNow (snd (resetAllNotifications (exEnv exNow)
        (exState [exReminder 1 ''2025-11-01T12:28:40.000Z'' (Some True)])))
     = [exReminder 1 ''2025-11-01T12:28:40.000Z'' None]"
proof -
  have n: "\<not> updateManyFails (exEnv exNow)" by (simp add: exEnv_def)
  have v: "exNow + lookahead = 1762000300000" by (simp add: exNow_def lookahead_def)
  show ?thesis
    using n reset_then_scan [OF n, of exNow "exState [exReminder 1 ''2025-11-01T12:28:40.000Z'' (Some True)]"]
    unfolding v
    by (simp add: exNow_def iso_exNow iso_exNow_5 exState_def exReminder_def unsetNotified_def)
qed

text \<open>
  As the claim stands, a reminder that is due in the past would be selected again after
  the reset. The query asks for \<^verbatim>\<open>datetime\<close> at or after the clock: a reminder that was
  due one minute before the scan is not selected, although the reset has cleared its
  flag.
\<close>

theorem reset_past_due_counterexample:
  "datetime (exReminder 1 ''2025-11-01T12:25:40.000Z'' (Some True)) = isoString (exNow - 60000)
   \<and> fst (resetAllNotifications (exEnv exNow)
        (exState [exReminder 1 ''2025-11-01T12:25:40.000Z'' (Some True)])) = Inr ()
   \<and> reminders (snd (resetAllNotifications (exEnv exNow)
        (exState [exReminder 1 ''2025-11-01T12:25:40.000Z'' (Some True)])))
      = [exReminder 1 ''2025-11-01T12:25:40.000Z'' None]
   \<and> scan exNow (snd (resetAllNotifications (exEnv exNow)
        (exState [exReminder 1 ''2025-11-01T12:25:40.000Z'' (Some True)]))) = []"
proof -
  have v: "exNow - 60000 = 1761999940000" by (simp add: exNow_def)
  have r: "snd (resetAllNotifications (exEnv exNow)
        (exState [exReminder 1 ''2025-11-01T12:25:40.000Z'' (Some True)]))
     = (exState [exReminder 1 ''2025-11-01T12:25:40.000Z'' None])\<lparr>trace := [LogReset 1]\<rparr>"
    by (simp add: resetAllNotifications_def updateMany_def exEnv_def exState_def emit_def
        exReminder_def)
  show ?thesis
    unfolding v r scan_exNow isoString_values
    by (simp add: resetAllNotifications_def updateMany_def exEnv_def exState_def
        exReminder_def matches_def)
qed

section \<open>A cycle alone, step by step\<close>

text \<open>A cycle that is started and whose awaited calls settle one after the other, with
  nothing in between, ends in the state that \<open>checkAndSendReminders\<close> gives.\<close>

lemma run_append: "run (xs @ ys) c = run ys (run xs c)"
  by (simp add: run_def)

lemma enterLoop_settles:
  "\<exists>n. run (replicate n (Settle 0 e)) ([fst (enterLoop ds s)], snd (enterLoop ds s))
     = ([Returned], snd (forEach e ds s))"
proof (induction ds arbitrary: s)
  case Nil
  have "run (replicate 0 (Settle 0 e)) ([fst (enterLoop [] s)], snd (enterLoop [] s))
     = ([Returned], snd (forEach e [] s))"
    by (simp add: run_def)
  then show ?case ..
next
  case (Cons d ds)
  show ?case
  proof (cases "snd d")
    case None
    define s1 where "s1 = emit (LogFailed (rid (fst d)) TypeError) s"
    have a: "enterLoop (d # ds) s = enterLoop ds s1" using None by (simp add: s1_def)
    have b: "snd (forEach e (d # ds) s) = snd (forEach e ds s1)"
      using None by (simp add: notifyReminder_def notifyBody_def s1_def)
    from Cons.IH [of s1] show ?thesis unfolding a b .
  next
    case (Some u)
    define s0 where "s0 = emit (Dispatch (rid (fst d))) s"
    have a: "enterLoop (d # ds) s = (AwaitSend d ds, s0)" using Some by (simp add: s0_def)
    show ?thesis
    proof (cases "sendFails e (rid (fst d))")
      case True
      define s1 where "s1 = emit (LogFailed (rid (fst d)) TransportError) s0"
      have b: "snd (forEach e (d # ds) s) = snd (forEach e ds s1)"
        using Some True
        by (simp add: notifyReminder_def notifyBody_def sendReminderNotification_def s1_def s0_def)
      have c: "run [Settle 0 e] ([AwaitSend d ds], s0) = ([fst (enterLoop ds s1)], snd (enterLoop ds s1))"
        using True by (simp add: run_def s1_def split: prod.splits)
      from Cons.IH [of s1] obtain n where
        "run (replicate n (Settle 0 e)) ([fst (enterLoop ds s1)], snd (enterLoop ds s1))
          = ([Returned], snd (forEach e ds s1))" ..
      then have "run (replicate (Suc n) (Settle 0 e)) ([AwaitSend d ds], s0)
          = ([Returned], snd (forEach e ds s1))"
        using c run_append [of "[Settle 0 e]" "replicate n (Settle 0 e)" "([AwaitSend d ds], s0)"]
        by simp
      then show ?thesis unfolding a b fst_conv snd_conv by (rule exI)
    next
      case False
      obtain r s2 where sv: "save e ((fst d)\<lparr>notified := Some True\<rparr>) s0 = (r, s2)"
        by (cases "save e ((fst d)\<lparr>notified := Some True\<rparr>) s0")
      define s1 where "s1 = (case r of Inl x \<Rightarrow> emit (LogFailed (rid (fst d)) x) s2
         | Inr _ \<Rightarrow> emit (LogSent (rid (fst d))) s2)"
      have b: "snd (forEach e (d # ds) s) = snd (forEach e ds s1)"
        using Some False sv
        by (simp add: notifyReminder_def notifyBody_def sendReminderNotification_def s1_def s0_def
            split: sum.splits)
      have c1: "run [Settle 0 e] ([AwaitSend d ds], s0) = ([AwaitSave d ds], s0)"
        using False by (simp add: run_def)
      have c2: "run [Settle 0 e] ([AwaitSave d ds], s0) = ([fst (enterLoop ds s1)], snd (enterLoop ds s1))"
        using sv by (simp add: run_def s1_def split: prod.splits sum.splits)
      from Cons.IH [of s1] obtain n where
        "run (replicate n (Settle 0 e)) ([fst (enterLoop ds s1)], snd (enterLoop ds s1))
          = ([Returned], snd (forEach e ds s1))" ..
      then have "run (replicate (Suc (Suc n)) (Settle 0 e)) ([AwaitSend d ds], s0)
          = ([Returned], snd (forEach e ds s1))"
        using c1 c2
          run_append [of "[Settle 0 e]" "replicate (Suc n) (Settle 0 e)" "([AwaitSend d ds], s0)"]
          run_append [of "[Settle 0 e]" "replicate n (Settle 0 e)" "([AwaitSave d ds], s0)"]
        by simp
      then show ?thesis unfolding a b fst_conv snd_conv by (rule exI)
    qed
  qed
qed

lemma cycle_alone:
  "\<exists>n. run (Timer e # replicate n (Settle 0 e)) ([], s) = ([Returned], snd (checkAndSendReminders e s))"
proof (cases "checkBody e s")
  case (Pair r s')
  show ?thesis
  proof (cases "toISOString (now e)")
    case (Inl x)
    then have "run (Timer e # replicate 0 (Settle 0 e)) ([], s)
        = ([Returned], snd (checkAndSendReminders e s))"
      by (simp add: run_def startCycle_def checkAndSendReminders_def checkBody_def)
    then show ?thesis ..
  next
    case lo: (Inr lo)
    show ?thesis
    proof (cases "toISOString (now e + lookahead)")
      case (Inl x)
      then have "run (Timer e # replicate 0 (Settle 0 e)) ([], s)
          = ([Returned], snd (checkAndSendReminders e s))"
        using lo by (simp add: run_def startCycle_def checkAndSendReminders_def checkBody_def)
      then show ?thesis ..
    next
      case hi: (Inr hi)
      have st: "run [Timer e] ([], s) = ([AwaitFind lo hi], s)"
        using lo hi by (simp add: run_def startCycle_def)
      show ?thesis
      proof (cases "Reminder_find e lo hi s")
        case (Inl x)
        then have "run (Timer e # replicate 1 (Settle 0 e)) ([], s)
          = ([Returned], snd (checkAndSendReminders e s))"
          using lo hi by (simp add: run_def startCycle_def checkAndSendReminders_def checkBody_def)
        then show ?thesis ..
      next
        case (Inr up)
        show ?thesis
        proof (cases "length up = 0")
          case True
          then have "run (Timer e # replicate 1 (Settle 0 e)) ([], s)
            = ([Returned], snd (checkAndSendReminders e s))"
            using lo hi Inr
            by (simp add: run_def startCycle_def checkAndSendReminders_def checkBody_def)
          then show ?thesis ..
        next
          case False
          define s0 where "s0 = emit (LogFound (length up)) s"
          have ok: "fst (forEach e up s0) = Inr ()" by (rule forEach_ok)
          have b: "snd (checkAndSendReminders e s) = snd (forEach e up s0)"
            using lo hi Inr False ok
            by (cases "forEach e up s0")
              (simp add: checkAndSendReminders_def checkBody_def s0_def)
          have c: "run [Settle 0 e] ([AwaitFind lo hi], s) = ([fst (enterLoop up s0)], snd (enterLoop up s0))"
            using Inr False by (simp add: run_def s0_def split: prod.splits)
          from enterLoop_settles [of e up s0] obtain n where
            n: "run (replicate n (Settle 0 e)) ([fst (enterLoop up s0)], snd (enterLoop up s0))
              = ([Returned], snd (forEach e up s0))" ..
          have "run (Timer e # replicate (Suc n) (Settle 0 e)) ([], s)
              = run (replicate n (Settle 0 e)) (run [Settle 0 e] (run [Timer e] ([], s)))"
            by (simp add: run_def)
          then have "run (Timer e # replicate (Suc n) (Settle 0 e)) ([], s)
              = ([Returned], snd (checkAndSendReminders e s))"
            unfolding st c n b .
          then show ?thesis ..
        qed
      qed
    qed
  qed
qed

section \<open>Dispatches over several cycles\<close>

lemma map_markAll_Nil: "map (markAll []) rs = rs"
  by (induction rs) (simp_all add: markAll_def)

lemma dispatches_append: "dispatches i (xs @ ys) = dispatches i xs + dispatches i ys"
  by (simp add: dispatches_def)

lemma length_filter_mono:
  assumes "\<And>x. x \<in> set xs \<Longrightarrow> P x \<Longrightarrow> Q x"
  shows "length (filter P xs) \<le> length (filter Q xs)"
  using assms by (induction xs) auto

lemma dispatches_eventsFor:
  "dispatches i (concat (map (eventsFor e) ds)) \<le> length (filter (\<lambda>d. rid (fst d) = i) ds)"
proof (induction ds)
  case Nil
  show ?case by (simp add: dispatches_def)
next
  case (Cons d ds)
  have "dispatches i (eventsFor e d) \<le> (if rid (fst d) = i then 1 else 0)"
    by (simp add: dispatches_def eventsFor_def split: option.splits)
  with Cons show ?case by (cases "rid (fst d) = i") (simp_all add: dispatches_append)
qed

lemma scan_pending: "length (filter (\<lambda>r. rid r = i) (scan t s)) \<le> pending i s"
  unfolding scan_def pending_def filter_filter
  by (rule length_filter_mono) (simp add: matches_def)

lemma checkBody_aborts:
  assumes "\<not> (validClock e \<and> \<not> findFails e)"
  shows "\<exists>x. checkBody e s = (Inl x, s)"
  using assms
  by (auto simp add: checkBody_def toISOString_def validClock_def Reminder_find_def
      split: sum.splits)

text \<open>Whatever fails, a cycle marks some reminders, adds events, and dispatches for an
  identifier no more often than there are unmarked reminders with it.\<close>

lemma cycle_summary:
  "\<exists>is evs. snd (checkAndSendReminders e s) =
       s\<lparr>reminders := map (markAll is) (reminders s), trace := trace s @ evs\<rparr>
     \<and> (\<forall>i. dispatches i evs \<le> pending i s)"
proof (cases "validClock e \<and> \<not> findFails e")
  case True
  then have v: "validClock e" and f: "\<not> findFails e" by simp_all
  show ?thesis
  proof (cases "scan (now e) s = []")
    case True
    have "snd (checkAndSendReminders e s) =
       s\<lparr>reminders := map (markAll []) (reminders s), trace := trace s @ []\<rparr>
     \<and> (\<forall>i. dispatches i [] \<le> pending i s)"
      using True by (simp add: cycle_effect [OF v f] map_markAll_Nil dispatches_def)
    then show ?thesis by blast
  next
    case False
    define docs where "docs = map (populate (users s)) (scan (now e) s)"
    define evs where "evs = LogFound (length (scan (now e) s)) # concat (map (eventsFor e) docs)"
    have d: "dispatches i evs \<le> pending i s" for i
    proof -
      have "dispatches i evs = dispatches i (concat (map (eventsFor e) docs))"
        by (simp add: evs_def dispatches_def)
      also have "\<dots> \<le> length (filter (\<lambda>d. rid (fst d) = i) docs)"
        by (rule dispatches_eventsFor)
      also have "\<dots> = length (filter (\<lambda>r. rid r = i) (scan (now e) s))"
        by (simp add: docs_def filter_map o_def populate_def)
      also have "\<dots> \<le> pending i s" by (rule scan_pending)
      finally show ?thesis .
    qed
    have "snd (checkAndSendReminders e s) =
       s\<lparr>reminders := map (markAll (map (\<lambda>d. rid (fst d)) (filter (delivered e) docs)))
            (reminders s), trace := trace s @ evs\<rparr>"
      using False by (simp add: cycle_effect [OF v f] docs_def evs_def)
    with d show ?thesis by blast
  qed
next
  case False
  from checkBody_aborts [OF this, of s] obtain x where "checkBody e s = (Inl x, s)" ..
  then have "snd (checkAndSendReminders e s) =
       s\<lparr>reminders := map (markAll []) (reminders s), trace := trace s @ [LogCheckError x]\<rparr>
     \<and> (\<forall>i. dispatches i [LogCheckError x] \<le> pending i s)"
    by (simp add: checkAndSendReminders_def emit_def map_markAll_Nil dispatches_def)
  then show ?thesis by blast
qed

lemma distinct_filter_le_1:
  assumes "distinct (map f xs)"
  shows "length (filter (\<lambda>x. f x = i) xs) \<le> 1"
  using assms by (induction xs) (auto simp add: filter_empty_conv image_iff)

lemma pending_le_1:
  assumes "distinct (map rid (reminders s))"
  shows "pending i s \<le> 1"
proof -
  have "pending i s \<le> length (filter (\<lambda>r. rid r = i) (reminders s))"
    unfolding pending_def by (rule length_filter_mono) simp
  also have "\<dots> \<le> 1" by (rule distinct_filter_le_1 [OF assms])
  finally show ?thesis .
qed

lemma pending_notified:
  assumes "distinct (map rid (reminders s))" "r \<in> set (reminders s)" "notified r = Some True"
  shows "pending (rid r) s = 0"
proof -
  have inj: "inj_on rid (set (reminders s))" using assms(1) by (simp add: distinct_map)
  have "x = r" if "x \<in> set (reminders s)" "rid x = rid r" for x
    using inj that assms(2) by (auto dest: inj_onD)
  then have "filter (\<lambda>x. rid x = rid r \<and> notified x \<noteq> Some True) (reminders s) = []"
    using assms(3) by (auto simp add: filter_empty_conv)
  then show ?thesis by (simp add: pending_def)
qed

lemma cycle_keeps_notified:
  assumes "distinct (map rid (reminders s))" "r \<in> set (reminders s)" "notified r = Some True"
  shows "distinct (map rid (reminders (snd (checkAndSendReminders e s))))
    \<and> r \<in> set (reminders (snd (checkAndSendReminders e s)))
    \<and> dispatches (rid r) (trace (snd (checkAndSendReminders e s))) = dispatches (rid r) (trace s)"
proof -
  from cycle_summary [of e s] obtain "is" evs where
    eq: "snd (checkAndSendReminders e s) =
       s\<lparr>reminders := map (markAll is) (reminders s), trace := trace s @ evs\<rparr>"
    and le: "\<forall>i. dispatches i evs \<le> pending i s" by blast
  have "markAll is r = r" using assms(3) by (simp add: markAll_def)
  then have "r \<in> markAll is ` set (reminders s)" using assms(2) by (metis imageI)
  moreover have "dispatches (rid r) evs = 0"
    using le pending_notified [OF assms] by (metis le_zero_eq)
  ultimately show ?thesis
    unfolding eq using assms(1) by (simp add: rid_markAll o_def dispatches_append)
qed

lemma runCycles_keeps_notified:
  assumes "distinct (map rid (reminders s))" "r \<in> set (reminders s)" "notified r = Some True"
  shows "r \<in> set (reminders (runCycles es s))
    \<and> dispatches (rid r) (trace (runCycles es s)) = dispatches (rid r) (trace s)"
  using assms
proof (induction es arbitrary: s)
  case Nil
  then show ?case by (simp add: runCycles_def)
next
  case (Cons e es)
  note k = cycle_keeps_notified [OF Cons.prems, of e]
  have "runCycles (e # es) s = runCycles es (snd (checkAndSendReminders e s))"
    by (simp add: runCycles_def)
  with Cons.IH [of "snd (checkAndSendReminders e s)"] k Cons.prems(3) show ?case by simp
qed

lemma dispatches_eventsFor_eq:
  "dispatches i (concat (map (eventsFor e) ds))
    = length (filter (\<lambda>d. rid (fst d) = i \<and> snd d \<noteq> None) ds)"
proof (induction ds)
  case Nil
  show ?case by (simp add: dispatches_def)
next
  case (Cons d ds)
  have "dispatches i (eventsFor e d) = (if rid (fst d) = i \<and> snd d \<noteq> None then 1 else 0)"
    by (simp add: dispatches_def eventsFor_def split: option.splits)
  with Cons show ?case
    by (cases "rid (fst d) = i \<and> snd d \<noteq> None") (simp_all add: dispatches_append)
qed

lemma distinct_filter_eq_1:
  assumes "distinct (map f xs)" "r \<in> set xs" "P r"
  shows "length (filter (\<lambda>x. f x = f r \<and> P x) xs) = 1"
  using assms by (induction xs) (auto simp add: filter_empty_conv image_iff)

text \<open>A cycle whose query succeeds dispatches exactly once for a reminder that it finds
  and whose owner resolves.\<close>

lemma cycle_dispatches_found:
  assumes d: "distinct (map rid (reminders s))"
    and v: "validClock e" and f: "\<not> findFails e"
    and r: "r \<in> set (scan (now e) s)" and u: "userId r \<in> set (users s)"
  shows "dispatches (rid r) (trace (snd (checkAndSendReminders e s)))
    = dispatches (rid r) (trace s) + 1"
proof -
  have ne: "scan (now e) s \<noteq> []" using r by auto
  have ds: "distinct (map rid (scan (now e) s))"
    unfolding scan_def using d by (rule distinct_map_filter)
  have fm: "filter (\<lambda>d. rid (fst d) = rid r \<and> snd d \<noteq> None) (map (populate (users s)) xs)
      = map (populate (users s)) (filter (\<lambda>x. rid x = rid r \<and> userId x \<in> set (users s)) xs)"
    for xs
    by (induction xs) (simp_all add: populate_def)
  have "dispatches (rid r) (concat (map (eventsFor e) (map (populate (users s)) (scan (now e) s))))
      = length (filter (\<lambda>x. rid x = rid r \<and> userId x \<in> set (users s)) (scan (now e) s))"
    unfolding dispatches_eventsFor_eq fm by simp
  also have "\<dots> = 1"
    using distinct_filter_eq_1 [of rid "scan (now e) s" r "\<lambda>x. userId x \<in> set (users s)"] ds r u
    by simp
  finally show ?thesis
    using ne by (simp add: cycle_effect [OF v f] dispatches_append dispatches_def)
qed

text \<open>A reminder whose notification or save fails in a cycle is left as it was.\<close>

lemma cycle_leaves_failed:
  assumes "r \<in> set (reminders s)" "sendFails e (rid r) \<or> saveFails e (rid r)"
  shows "r \<in> set (reminders (snd (checkAndSendReminders e s)))"
proof (cases "validClock e \<and> \<not> findFails e")
  case True
  then have v: "validClock e" and f: "\<not> findFails e" by simp_all
  define ids where "ids = map (\<lambda>d. rid (fst d))
      (filter (delivered e) (map (populate (users s)) (scan (now e) s)))"
  have "rid r \<notin> set ids"
    using assms(2) unfolding ids_def by (auto simp add: delivered_def)
  then have "markAll ids r = r" by (simp add: markAll_def)
  then have "r \<in> markAll ids ` set (reminders s)" using assms(1) by (metis imageI)
  then show ?thesis
    using assms(1) by (simp add: cycle_effect [OF v f] ids_def)
next
  case False
  from checkBody_aborts [OF this, of s] obtain x where "checkBody e s = (Inl x, s)" ..
  then show ?thesis using assms(1) by (simp add: checkAndSendReminders_def emit_def)
qed

text \<open>
  Claim C1 (amended). Reminders have distinct identifiers, and cycles run one after the
  other, each to its end. A cycle attempts the dispatch for a reminder at most once. A
  reminder whose \<^verbatim>\<open>notified\<close> flag is true is never dispatched again, by any number of
  cycles, and stays as it is. A reminder whose notification or save fails in a cycle is
  left as it was. A cycle with a valid clock whose query succeeds and returns a reminder
  whose owner resolves dispatches for it exactly once: this is how a reminder that is
  still unmarked is tried again by a later cycle.
\<close>

theorem no_dispatch_once_notified:
  assumes "distinct (map rid (reminders s))"
  shows "dispatches i (trace (snd (checkAndSendReminders e s))) \<le> dispatches i (trace s) + 1
    \<and> (\<forall>r\<in>set (reminders s). notified r = Some True \<longrightarrow>
          dispatches (rid r) (trace (runCycles es s)) = dispatches (rid r) (trace s)
          \<and> r \<in> set (reminders (runCycles es s)))
    \<and> (\<forall>r\<in>set (reminders s). sendFails e (rid r) \<or> saveFails e (rid r) \<longrightarrow>
          r \<in> set (reminders (snd (checkAndSendReminders e s))))
    \<and> (\<forall>r\<in>set (scan (now e) s). validClock e \<and> \<not> findFails e \<and> userId r \<in> set (users s) \<longrightarrow>
          dispatches (rid r) (trace (snd (checkAndSendReminders e s)))
            = dispatches (rid r) (trace s) + 1)"
proof -
  from cycle_summary [of e s] obtain "is" evs where
    eq: "snd (checkAndSendReminders e s) =
       s\<lparr>reminders := map (markAll is) (reminders s), trace := trace s @ evs\<rparr>"
    and le: "\<forall>i. dispatches i evs \<le> pending i s" by blast
  have "dispatches i evs \<le> 1" using le pending_le_1 [OF assms, of i] by (metis order_trans)
  then have a: "dispatches i (trace (snd (checkAndSendReminders e s))) \<le> dispatches i (trace s) + 1"
    unfolding eq by (simp add: dispatches_append)
  have b: "\<forall>r\<in>set (reminders s). notified r = Some True \<longrightarrow>
          dispatches (rid r) (trace (runCycles es s)) = dispatches (rid r) (trace s)
          \<and> r \<in> set (reminders (runCycles es s))"
    using runCycles_keeps_notified [OF assms] by simp
  have c: "\<forall>r\<in>set (reminders s). sendFails e (rid r) \<or> saveFails e (rid r) \<longrightarrow>
          r \<in> set (reminders (snd (checkAndSendReminders e s)))"
    using cycle_leaves_failed by blast
  have d: "\<forall>r\<in>set (scan (now e) s). validClock e \<and> \<not> findFails e \<and> userId r \<in> set (users s) \<longrightarrow>
          dispatches (rid r) (trace (snd (checkAndSendReminders e s)))
            = dispatches (rid r) (trace s) + 1"
    using cycle_dispatches_found [OF assms] by blast
  from a b c d show ?thesis by (intro conjI)
qed

lemma cycle_exNow_fail:
  assumes "reminders s = [exReminder 1 ''2025-11-01T12:28:40.000Z'' None]" "users s = [7]"
  shows "snd (checkAndSendReminders (exEnvSendsFail exNow) s)
   = s\<lparr>trace := trace s @ [LogFound 1, Dispatch 1, LogFailed 1 TransportError]\<rparr>"
proof -
  define e where "e = exEnvSendsFail exNow"
  have n: "now e = exNow" by (simp add: e_def exEnvSendsFail_def exEnv_def)
  have sc: "scan (now e) s = [exReminder 1 ''2025-11-01T12:28:40.000Z'' None]"
    unfolding n by (simp add: scan_exNow exReminder_def matches_def assms)
  have nf: "\<not> findFails e" by (simp add: e_def exEnvSendsFail_def exEnv_def)
  have v: "validClock e"
    using validClock_exEnv by (simp add: e_def exEnvSendsFail_def validClock_def)
  show ?thesis
    unfolding e_def [symmetric] checkAndSendReminders_scan [OF v nf] sc
    by (simp add: populate_def exReminder_def notifyReminder_def notifyBody_def
        sendReminderNotification_def emit_def e_def exEnvSendsFail_def assms)
qed

theorem no_dispatch_once_notified_witness:
  "distinct (map rid (reminders (exState [exReminder 1 ''2025-11-01T12:28:40.000Z'' (Some True)])))
   \<and> notified (exReminder 1 ''2025-11-01T12:28:40.000Z'' (Some True)) = Some True
   \<and> dispatches 1 (trace (runCycles [exEnv exNow, exEnv exNow]
        (exState [exReminder 1 ''2025-11-01T12:28:40.000Z'' (Some True)]))) = 0
   \<and> distinct (map rid (reminders (exState [exReminder 1 ''2025-11-01T12:28:40.000Z'' None])))
   \<and> sendFails (exEnvSendsFail exNow) 1
   \<and> exReminder 1 ''2025-11-01T12:28:40.000Z'' None
       \<in> set (reminders (snd (checkAndSendReminders (exEnvSendsFail exNow)
            (exState [exReminder 1 ''2025-11-01T12:28:40.000Z'' None]))))
   \<and> dispatches 1 (trace (snd (checkAndSendReminders (exEnvSendsFail exNow)
        (exState [exReminder 1 ''2025-11-01T12:28:40.000Z'' None])))) = 1
   \<and> validClock (exEnv exNow) \<and> \<not> findFails (exEnv exNow)
   \<and> exReminder 1 ''2025-11-01T12:28:40.000Z'' None
       \<in> set (scan (now (exEnv exNow)) (snd (checkAndSendReminders (exEnvSendsFail exNow)
            (exState [exReminder 1 ''2025-11-01T12:28:40.000Z'' None]))))
   \<and> dispatches 1 (trace (snd (checkAndSendReminders (exEnv exNow)
        (snd (checkAndSendReminders (exEnvSendsFail exNow)
          (exState [exReminder 1 ''2025-11-01T12:28:40.000Z'' None])))))) = 2"
proof -
  define rm where "rm = exReminder 1 ''2025-11-01T12:28:40.000Z'' (Some True)"
  define sm where "sm = exState [rm]"
  define r1 where "r1 = exReminder 1 ''2025-11-01T12:28:40.000Z'' None"
  define s1 where "s1 = exState [r1]"
  define s2 where "s2 = snd (checkAndSendReminders (exEnvSendsFail exNow) s1)"
  have dm: "distinct (map rid (reminders sm))" by (simp add: sm_def exState_def)
  have nm: "notified rm = Some True" "rid rm = 1" "rm \<in> set (reminders sm)" "trace sm = []"
    by (simp_all add: rm_def sm_def exReminder_def exState_def)
  from no_dispatch_once_notified [OF dm, of 1 "exEnv exNow" "[exEnv exNow, exEnv exNow]"] nm
  have "dispatches (rid rm) (trace (runCycles [exEnv exNow, exEnv exNow] sm))
      = dispatches (rid rm) (trace sm)"
    by blast
  then have a: "dispatches 1 (trace (runCycles [exEnv exNow, exEnv exNow] sm)) = 0"
    using nm by (simp add: dispatches_def)
  have d1: "distinct (map rid (reminders s1))" by (simp add: s1_def exState_def)
  have n1: "rid r1 = 1" "r1 \<in> set (reminders s1)" "trace s1 = []" "userId r1 = 7"
    "reminders s1 = [exReminder 1 ''2025-11-01T12:28:40.000Z'' None]" "users s1 = [7]"
    by (simp_all add: r1_def s1_def exReminder_def exState_def)
  have sf: "sendFails (exEnvSendsFail exNow) 1" "now (exEnvSendsFail exNow) = exNow"
    "validClock (exEnvSendsFail exNow)" "\<not> findFails (exEnvSendsFail exNow)"
    using validClock_exEnv by (simp_all add: exEnvSendsFail_def exEnv_def validClock_def)
  have ok: "validClock (exEnv exNow)" "\<not> findFails (exEnv exNow)" "now (exEnv exNow) = exNow"
    using validClock_exEnv by (simp_all add: exEnv_def)
  have sc1: "r1 \<in> set (scan exNow s1)"
    by (simp add: scan_exNow n1(5)) (simp add: r1_def exReminder_def matches_def)
  have sc1': "r1 \<in> set (scan (now (exEnvSendsFail exNow)) s1)" unfolding sf(2) by (rule sc1)
  note t1 = no_dispatch_once_notified [OF d1, of 1 "exEnvSendsFail exNow" "[]"]
  note t1c = t1 [THEN conjunct2, THEN conjunct2, THEN conjunct1, rule_format, OF n1(2)]
  note t1d = t1 [THEN conjunct2, THEN conjunct2, THEN conjunct2, rule_format, OF sc1']
  have b: "r1 \<in> set (reminders s2)"
    unfolding s2_def using t1c sf(1) n1(1) by simp
  have "dispatches (rid r1) (trace s2) = dispatches (rid r1) (trace s1) + 1"
    unfolding s2_def using t1d sf(3,4) n1(4,6) by simp
  then have c: "dispatches 1 (trace s2) = 1"
    using n1 by (simp add: dispatches_def)
  have s2eq: "s2 = s1\<lparr>trace := trace s1 @ [LogFound 1, Dispatch 1, LogFailed 1 TransportError]\<rparr>"
    unfolding s2_def by (rule cycle_exNow_fail [OF n1(5,6)])
  have d2: "distinct (map rid (reminders s2))" "users s2 = [7]"
    unfolding s2eq using d1 n1(6) by simp_all
  have sc2: "r1 \<in> set (scan exNow s2)"
    unfolding s2eq by (simp add: scan_exNow n1(5)) (simp add: r1_def exReminder_def matches_def)
  have sc2': "r1 \<in> set (scan (now (exEnv exNow)) s2)" unfolding ok(3) by (rule sc2)
  note t2 = no_dispatch_once_notified [OF d2(1), of 1 "exEnv exNow" "[]"]
  note t2d = t2 [THEN conjunct2, THEN conjunct2, THEN conjunct2, rule_format, OF sc2']
  have "dispatches (rid r1) (trace (snd (checkAndSendReminders (exEnv exNow) s2)))
      = dispatches (rid r1) (trace s2) + 1"
    using t2d ok(1,2) n1(4) d2(2) by simp
  then have e: "dispatches 1 (trace (snd (checkAndSendReminders (exEnv exNow) s2))) = 2"
    using c n1(1) by simp
  show ?thesis
    using dm nm(1) a d1 sf(1) b c ok(1,2) sc2 e
    unfolding sm_def rm_def s1_def r1_def s2_def ok(3) by simp
qed

lemma startCycle_exNow:
  "startCycle (exEnv exNow) s
    = (AwaitFind ''2025-11-01T12:26:40.000Z'' ''2025-11-01T12:31:40.000Z'', s)"
  by (simp add: startCycle_def toISOString_def exEnv_def exNow_def maxTime_def lookahead_def
      iso_exNow iso_exNow_5)

lemma find_exNow:
  "Reminder_find (exEnv exNow) ''2025-11-01T12:26:40.000Z'' ''2025-11-01T12:31:40.000Z'' s
    = Inr (map (populate (users s)) (scan exNow s))"
  by (simp add: Reminder_find_def exEnv_def scan_exNow)

lemma run_Cons: "run (a # as) c = run as (perform a c)"
  by (simp add: run_def)

lemma run_Nil: "run [] c = c"
  by (simp add: run_def)

lemma overlap_run:
  "run exOverlap ([], exState [exReminder 1 ''2025-11-01T12:28:40.000Z'' None,
       exReminder 2 ''2025-11-01T12:29:40.000Z'' None])
   = ([Returned, AwaitSend (exReminder 1 ''2025-11-01T12:28:40.000Z'' None, Some 7)
         [(exReminder 2 ''2025-11-01T12:29:40.000Z'' None, Some 7)]],
      \<lparr>isRunning = False, jobs = [],
       reminders = [exReminder 1 ''2025-11-01T12:28:40.000Z'' (Some True),
         exReminder 2 ''2025-11-01T12:29:40.000Z'' (Some True)],
       users = [7],
       trace = [LogManualTrigger, LogFound 2, Dispatch 1, LogFound 2, Dispatch 1, LogSent 1,
         Dispatch 2, LogSent 2]\<rparr>)"
proof -
  define r1 where "r1 = exReminder 1 ''2025-11-01T12:28:40.000Z'' None"
  define r2 where "r2 = exReminder 2 ''2025-11-01T12:29:40.000Z'' None"
  have sc: "scan exNow s = [r1, r2]" if "reminders s = [r1, r2]" for s
    using that by (simp add: scan_exNow r1_def r2_def exReminder_def matches_def)
  have sf: "\<not> sendFails (exEnv exNow) i" "\<not> saveFails (exEnv exNow) i" for i
    by (simp_all add: exEnv_def)
  have id: "rid r1 = 1" "rid r2 = 2" "userId r1 = 7" "userId r2 = 7"
    by (simp_all add: r1_def r2_def exReminder_def)
  have m: "r1\<lparr>notified := Some True\<rparr> = exReminder 1 ''2025-11-01T12:28:40.000Z'' (Some True)"
    "r2\<lparr>notified := Some True\<rparr> = exReminder 2 ''2025-11-01T12:29:40.000Z'' (Some True)"
    by (simp_all add: r1_def r2_def exReminder_def)
  have "run exOverlap ([], exState [r1, r2])
   = ([Returned, AwaitSend (r1, Some 7) [(r2, Some 7)]],
      \<lparr>isRunning = False, jobs = [],
       reminders = [r1\<lparr>notified := Some True\<rparr>, r2\<lparr>notified := Some True\<rparr>],
       users = [7],
       trace = [LogManualTrigger, LogFound 2, Dispatch 1, LogFound 2, Dispatch 1, LogSent 1,
         Dispatch 2, LogSent 2]\<rparr>)"
    unfolding exOverlap_def
    by (simp add: run_Cons run_Nil startCycle_exNow find_exNow sc sf id exState_def emit_def
        populate_def save_def)
  then show ?thesis unfolding m unfolding r1_def r2_def .
qed

text \<open>
  The claim as it stands fails twice. A reminder whose notification fails is dispatched
  again by the next cycle, while \<^verbatim>\<open>notified\<close> is still unset: two attempts. And when a
  manual cycle overlaps a timer cycle, both have scanned the two reminders before either
  has marked one; the timer cycle dispatches and marks both, and the manual cycle then
  dispatches the second reminder although its stored flag is already true.
\<close>

theorem duplicate_dispatch_counterexample:
  "reminders (runCycles [exEnvSendsFail exNow]
       (exState [exReminder 1 ''2025-11-01T12:28:40.000Z'' None]))
     = [exReminder 1 ''2025-11-01T12:28:40.000Z'' None]
   \<and> dispatches 1 (trace (runCycles [exEnvSendsFail exNow]
       (exState [exReminder 1 ''2025-11-01T12:28:40.000Z'' None]))) = 1
   \<and> dispatches 1 (trace (runCycles [exEnvSendsFail exNow, exEnv exNow]
       (exState [exReminder 1 ''2025-11-01T12:28:40.000Z'' None]))) = 2
   \<and> reminders (snd (run exOverlap ([], exState [exReminder 1 ''2025-11-01T12:28:40.000Z'' None,
         exReminder 2 ''2025-11-01T12:29:40.000Z'' None])))
     = [exReminder 1 ''2025-11-01T12:28:40.000Z'' (Some True),
        exReminder 2 ''2025-11-01T12:29:40.000Z'' (Some True)]
   \<and> trace (snd (run (exOverlap @ [Settle 1 (exEnv exNow), Settle 1 (exEnv exNow)])
       ([], exState [exReminder 1 ''2025-11-01T12:28:40.000Z'' None,
         exReminder 2 ''2025-11-01T12:29:40.000Z'' None])))
     = trace (snd (run exOverlap ([], exState [exReminder 1 ''2025-11-01T12:28:40.000Z'' None,
         exReminder 2 ''2025-11-01T12:29:40.000Z'' None]))) @ [LogSent 1, Dispatch 2]"
proof -
  define s0 where "s0 = exState [exReminder 1 ''2025-11-01T12:28:40.000Z'' None]"
  define s1 where "s1 = s0\<lparr>trace := trace s0 @ [LogFound 1, Dispatch 1, LogFailed 1 TransportError]\<rparr>"
  have r0: "reminders s0 = [exReminder 1 ''2025-11-01T12:28:40.000Z'' None]" "users s0 = [7]"
    "trace s0 = []"
    by (simp_all add: s0_def exState_def)
  have r1: "reminders s1 = [exReminder 1 ''2025-11-01T12:28:40.000Z'' None]" "users s1 = [7]"
    by (simp_all add: s1_def r0)
  have c1: "runCycles [exEnvSendsFail exNow] s0 = s1"
    by (simp add: runCycles_def cycle_exNow_fail [OF r0(1,2)] s1_def)
  have "runCycles [exEnvSendsFail exNow, exEnv exNow] s0
     = snd (checkAndSendReminders (exEnv exNow)
         (runCycles [exEnvSendsFail exNow] s0))"
    by (simp add: runCycles_def)
  then have c2: "runCycles [exEnvSendsFail exNow, exEnv exNow] s0
     = s1\<lparr>reminders := [exReminder 1 ''2025-11-01T12:28:40.000Z'' (Some True)],
         trace := trace s1 @ [LogFound 1, Dispatch 1, LogSent 1]\<rparr>"
    unfolding c1 cycle_exNow_one [OF r1] .
  have a: "reminders (runCycles [exEnvSendsFail exNow] s0)
     = [exReminder 1 ''2025-11-01T12:28:40.000Z'' None]"
    unfolding c1 by (rule r1)
  have b: "dispatches 1 (trace (runCycles [exEnvSendsFail exNow] s0)) = 1"
    unfolding c1 by (simp add: s1_def r0 dispatches_def)
  have c: "dispatches 1 (trace (runCycles [exEnvSendsFail exNow, exEnv exNow] s0)) = 2"
    unfolding c2 by (simp add: s1_def r0 dispatches_def)
  have sf: "\<not> sendFails (exEnv exNow) i" "\<not> saveFails (exEnv exNow) i" for i
    by (simp_all add: exEnv_def)
  have d: "reminders (snd (run exOverlap ([], exState [exReminder 1 ''2025-11-01T12:28:40.000Z'' None,
         exReminder 2 ''2025-11-01T12:29:40.000Z'' None])))
     = [exReminder 1 ''2025-11-01T12:28:40.000Z'' (Some True),
        exReminder 2 ''2025-11-01T12:29:40.000Z'' (Some True)]"
    unfolding overlap_run by simp
  have e: "trace (snd (run (exOverlap @ [Settle 1 (exEnv exNow), Settle 1 (exEnv exNow)])
       ([], exState [exReminder 1 ''2025-11-01T12:28:40.000Z'' None,
         exReminder 2 ''2025-11-01T12:29:40.000Z'' None])))
     = trace (snd (run exOverlap ([], exState [exReminder 1 ''2025-11-01T12:28:40.000Z'' None,
         exReminder 2 ''2025-11-01T12:29:40.000Z'' None]))) @ [LogSent 1, Dispatch 2]"
    unfolding run_append overlap_run
    by (simp add: run_Cons run_Nil sf save_def emit_def exReminder_def)
  show ?thesis
    using a b c d e unfolding s0_def by simp
qed

section \<open>The mark\<close>

text \<open>
  Claim C2 (amended). The mark is \<^verbatim>\<open>reminder.notified = true\<close> followed by
  \<^verbatim>\<open>reminder.save()\<close>: a write by identifier that does not look at the stored flag. When
  the save succeeds, the stored reminder with that identifier has the flag set and
  everything else is as before. When the stored reminder is already marked, the store
  does not change. When no stored reminder has the identifier (it was deleted after the
  scan), the store does not change and the save fails; its error, like every other one,
  is caught inside the iteration, which ends normally.
\<close>

theorem mark_is_a_plain_write:
  "(\<not> saveFails e (rid r) \<and> rid r \<in> set (map rid (reminders s)) \<longrightarrow>
      save e (r\<lparr>notified := Some True\<rparr>) s
        = (Inr (), s\<lparr>reminders := map (markAll [rid r]) (reminders s)\<rparr>))
   \<and> ((\<forall>x\<in>set (reminders s). rid x = rid r \<longrightarrow> notified x = Some True) \<longrightarrow>
      snd (save e (r\<lparr>notified := Some True\<rparr>) s) = s)
   \<and> (rid r \<notin> set (map rid (reminders s)) \<longrightarrow>
      save e (r\<lparr>notified := Some True\<rparr>) s
        = (Inl (if saveFails e (rid r) then StoreError else DocumentNotFoundError), s))
   \<and> fst (notifyReminder e d s) = Inr ()"
proof (intro conjI impI)
  assume "\<not> saveFails e (rid r) \<and> rid r \<in> set (map rid (reminders s))"
  then show "save e (r\<lparr>notified := Some True\<rparr>) s
        = (Inr (), s\<lparr>reminders := map (markAll [rid r]) (reminders s)\<rparr>)"
    by (simp add: save_def markAll_def cong: if_cong)
next
  assume a: "\<forall>x\<in>set (reminders s). rid x = rid r \<longrightarrow> notified x = Some True"
  have "map (\<lambda>x. if rid x = rid r then x\<lparr>notified := Some True\<rparr> else x) (reminders s)
      = reminders s"
    using a by (intro map_idI) auto
  then show "snd (save e (r\<lparr>notified := Some True\<rparr>) s) = s"
    by (simp add: save_def cong: if_cong)
next
  assume "rid r \<notin> set (map rid (reminders s))"
  then show "save e (r\<lparr>notified := Some True\<rparr>) s
        = (Inl (if saveFails e (rid r) then StoreError else DocumentNotFoundError), s)"
    by (simp add: save_def)
next
  show "fst (notifyReminder e d s) = Inr ()" by (rule notifyReminder_ok)
qed

theorem mark_is_a_plain_write_witness:
  "\<not> saveFails (exEnv exNow) 1
   \<and> save (exEnv exNow) (exReminder 1 ''2025-11-01T12:28:40.000Z'' (Some True))
        (exState [exReminder 1 ''2025-11-01T12:28:40.000Z'' (Some False)])
      = (Inr (), exState [exReminder 1 ''2025-11-01T12:28:40.000Z'' (Some True)])
   \<and> snd (save (exEnv exNow) (exReminder 1 ''2025-11-01T12:28:40.000Z'' (Some True))
        (exState [exReminder 1 ''2025-11-01T12:28:40.000Z'' (Some True)]))
      = exState [exReminder 1 ''2025-11-01T12:28:40.000Z'' (Some True)]
   \<and> save (exEnv exNow) (exReminder 1 ''2025-11-01T12:28:40.000Z'' (Some True)) (exState [])
      = (Inl DocumentNotFoundError, exState [])"
proof -
  define r where "r = exReminder 1 ''2025-11-01T12:28:40.000Z'' None"
  have m: "r\<lparr>notified := Some True\<rparr> = exReminder 1 ''2025-11-01T12:28:40.000Z'' (Some True)"
    "rid r = 1"
    by (simp_all add: r_def exReminder_def)
  have sf: "\<not> saveFails (exEnv exNow) 1" by (simp add: exEnv_def)
  note t1 = mark_is_a_plain_write [of "exEnv exNow" r
      "exState [exReminder 1 ''2025-11-01T12:28:40.000Z'' (Some False)]", THEN conjunct1]
  note t2 = mark_is_a_plain_write [of "exEnv exNow" r
      "exState [exReminder 1 ''2025-11-01T12:28:40.000Z'' (Some True)]",
      THEN conjunct2, THEN conjunct1]
  note t3 = mark_is_a_plain_write [of "exEnv exNow" r "exState []",
      THEN conjunct2, THEN conjunct2, THEN conjunct1]
  have a: "save (exEnv exNow) (exReminder 1 ''2025-11-01T12:28:40.000Z'' (Some True))
        (exState [exReminder 1 ''2025-11-01T12:28:40.000Z'' (Some False)])
      = (Inr (), exState [exReminder 1 ''2025-11-01T12:28:40.000Z'' (Some True)])"
    using t1 sf unfolding m by (simp add: exState_def exReminder_def markAll_def)
  have b: "snd (save (exEnv exNow) (exReminder 1 ''2025-11-01T12:28:40.000Z'' (Some True))
        (exState [exReminder 1 ''2025-11-01T12:28:40.000Z'' (Some True)]))
      = exState [exReminder 1 ''2025-11-01T12:28:40.000Z'' (Some True)]"
    using t2 unfolding m by (simp add: exState_def exReminder_def)
  have c: "save (exEnv exNow) (exReminder 1 ''2025-11-01T12:28:40.000Z'' (Some True)) (exState [])
      = (Inl DocumentNotFoundError, exState [])"
    using t3 sf unfolding m by (simp add: exState_def)
  show ?thesis using sf a b c by simp
qed

text \<open>
  As the claim stands, the mark of a reminder that was deleted between scan and mark
  would be a silent no-op. Here the reminder is deleted after its notification was sent:
  the save fails with DocumentNotFoundError and the iteration reports a failure.
\<close>

theorem mark_after_delete_counterexample:
  "fst (save (exEnv exNow) ((exReminder 1 ''2025-11-01T12:28:40.000Z'' None)\<lparr>notified := Some True\<rparr>)
        (exState [])) = Inl DocumentNotFoundError
   \<and> run exDeleted ([], exState [exReminder 1 ''2025-11-01T12:28:40.000Z'' None])
     = ([Returned], \<lparr>isRunning = False, jobs = [], reminders = [], users = [7],
         trace = [LogFound 1, Dispatch 1, LogFailed 1 DocumentNotFoundError]\<rparr>)"
proof -
  define r1 where "r1 = exReminder 1 ''2025-11-01T12:28:40.000Z'' None"
  have sf: "\<not> sendFails (exEnv exNow) i" "\<not> saveFails (exEnv exNow) i" for i
    by (simp_all add: exEnv_def)
  have sc: "scan exNow s = [r1]" if "reminders s = [r1]" for s
    using that by (simp add: scan_exNow r1_def exReminder_def matches_def)
  have id: "rid r1 = 1" "userId r1 = 7"
    by (simp_all add: r1_def exReminder_def)
  have a: "fst (save (exEnv exNow) (r1\<lparr>notified := Some True\<rparr>) (exState []))
      = Inl DocumentNotFoundError"
    by (simp add: save_def sf exState_def)
  have b: "run exDeleted ([], exState [r1])
     = ([Returned], \<lparr>isRunning = False, jobs = [], reminders = [], users = [7],
         trace = [LogFound 1, Dispatch 1, LogFailed 1 DocumentNotFoundError]\<rparr>)"
    unfolding exDeleted_def
    by (simp add: run_Cons run_Nil startCycle_exNow find_exNow sc sf id exState_def emit_def
        populate_def save_def)
  show ?thesis using a b unfolding r1_def by simp
qed

section \<open>Stopping\<close>

text \<open>The \<^verbatim>\<open>catch\<close> of the callback is never reached: the callback run to its end is the
  cycle run to its end.\<close>

lemma cronCallback_is_cycle: "cronCallback e s = checkAndSendReminders e s"
  using checkAndSendReminders_ok [of e s]
  by (cases "checkAndSendReminders e s") (simp add: cronCallback_def)

text \<open>
  Claim C3. \<^verbatim>\<open>stopScheduler\<close> clears \<^verbatim>\<open>isRunning\<close> and writes its console line; the task
  that \<^verbatim>\<open>startScheduler\<close> registered stays registered, and its callback does not look at
  \<^verbatim>\<open>isRunning\<close>. So the timer tick after a stop still starts a cycle, and that cycle runs
  as any other: here it finds the due reminder, dispatches its notification and marks
  it.
\<close>

theorem stopScheduler_leaves_timer_running:
  "jobs (stopScheduler (startScheduler (exState [exReminder 1 ''2025-11-01T12:28:40.000Z'' None])))
     = [''* * * * *'']
   \<and> isRunning (stopScheduler (startScheduler
        (exState [exReminder 1 ''2025-11-01T12:28:40.000Z'' None]))) = False
   \<and> trace (snd (cronCallback (exEnv exNow) (stopScheduler (startScheduler
        (exState [exReminder 1 ''2025-11-01T12:28:40.000Z'' None])))))
     = [LogStarted, LogStopped, LogFound 1, Dispatch 1, LogSent 1]
   \<and> reminders (snd (cronCallback (exEnv exNow) (stopScheduler (startScheduler
        (exState [exReminder 1 ''2025-11-01T12:28:40.000Z'' None])))))
     = [exReminder 1 ''2025-11-01T12:28:40.000Z'' (Some True)]
   \<and> fst (timerTick (exEnv exNow) ([], stopScheduler (startScheduler
        (exState [exReminder 1 ''2025-11-01T12:28:40.000Z'' None]))))
     = [AwaitFind ''2025-11-01T12:26:40.000Z'' ''2025-11-01T12:31:40.000Z'']
   \<and> trace (snd (run [Settle 0 (exEnv exNow), Settle 0 (exEnv exNow), Settle 0 (exEnv exNow)]
        (timerTick (exEnv exNow) ([], stopScheduler (startScheduler
          (exState [exReminder 1 ''2025-11-01T12:28:40.000Z'' None]))))))
     = [LogStarted, LogStopped, LogFound 1, Dispatch 1, LogSent 1]
   \<and> reminders (snd (run [Settle 0 (exEnv exNow), Settle 0 (exEnv exNow), Settle 0 (exEnv exNow)]
        (timerTick (exEnv exNow) ([], stopScheduler (startScheduler
          (exState [exReminder 1 ''2025-11-01T12:28:40.000Z'' None]))))))
     = [exReminder 1 ''2025-11-01T12:28:40.000Z'' (Some True)]"
proof -
  define r1 where "r1 = exReminder 1 ''2025-11-01T12:28:40.000Z'' None"
  define s where "s = \<lparr>isRunning = False, jobs = [everyMinute],
    reminders = [r1], users = [7], trace = [LogStarted, LogStopped]\<rparr>"
  have st: "stopScheduler (startScheduler (exState [r1])) = s"
    by (simp add: s_def stopScheduler_def startScheduler_def exState_def emit_def)
  have r: "reminders s = [exReminder 1 ''2025-11-01T12:28:40.000Z'' None]" "users s = [7]"
    "jobs s = [everyMinute]"
    by (simp_all add: s_def r1_def)
  have cb: "snd (cronCallback (exEnv exNow) s)
      = s\<lparr>reminders := [exReminder 1 ''2025-11-01T12:28:40.000Z'' (Some True)],
       trace := trace s @ [LogFound 1, Dispatch 1, LogSent 1]\<rparr>"
    unfolding cronCallback_is_cycle by (rule cycle_exNow_one [OF r(1,2)])
  have sf: "\<not> sendFails (exEnv exNow) i" "\<not> saveFails (exEnv exNow) i" for i
    by (simp_all add: exEnv_def)
  have sc: "scan exNow x = [r1]" if "reminders x = [r1]" for x
    using that by (simp add: scan_exNow r1_def exReminder_def matches_def)
  have id: "rid r1 = 1" "userId r1 = 7"
    by (simp_all add: r1_def exReminder_def)
  have m: "r1\<lparr>notified := Some True\<rparr> = exReminder 1 ''2025-11-01T12:28:40.000Z'' (Some True)"
    by (simp add: r1_def exReminder_def)
  have tk: "timerTick (exEnv exNow) ([], s)
      = ([AwaitFind ''2025-11-01T12:26:40.000Z'' ''2025-11-01T12:31:40.000Z''], s)"
    by (simp add: timerTick_def r(3) startCycle_exNow)
  have rn: "run [Settle 0 (exEnv exNow), Settle 0 (exEnv exNow), Settle 0 (exEnv exNow)]
        ([AwaitFind ''2025-11-01T12:26:40.000Z'' ''2025-11-01T12:31:40.000Z''], s)
      = ([Returned], \<lparr>isRunning = False, jobs = [everyMinute],
          reminders = [r1\<lparr>notified := Some True\<rparr>], users = [7],
          trace = [LogStarted, LogStopped, LogFound 1, Dispatch 1, LogSent 1]\<rparr>)"
    by (simp add: run_Cons run_Nil find_exNow sc sf id s_def emit_def populate_def save_def)
  show ?thesis
    unfolding r1_def [symmetric] st tk rn cb
    by (simp add: s_def everyMinute_def m)
qed

text \<open>After a start, a stop and another start, two tasks are registered: one tick starts
  two cycles, and when both queries have settled the reminder has been dispatched
  twice.\<close>

lemma timerTick_two_tasks:
  "jobs (startScheduler (stopScheduler (startScheduler
      (exState [exReminder 1 ''2025-11-01T12:28:40.000Z'' None]))))
     = [''* * * * *'', ''* * * * *'']
   \<and> dispatches 1 (trace (snd (run [Settle 0 (exEnv exNow), Settle 1 (exEnv exNow)]
        (timerTick (exEnv exNow) ([], startScheduler (stopScheduler (startScheduler
          (exState [exReminder 1 ''2025-11-01T12:28:40.000Z'' None]))))))))
     = 2"
proof -
  define r1 where "r1 = exReminder 1 ''2025-11-01T12:28:40.000Z'' None"
  define s where "s = \<lparr>isRunning = True, jobs = [everyMinute, everyMinute],
    reminders = [r1], users = [7], trace = [LogStarted, LogStopped, LogStarted]\<rparr>"
  have st: "startScheduler (stopScheduler (startScheduler (exState [r1]))) = s"
    by (simp add: s_def stopScheduler_def startScheduler_def exState_def emit_def)
  have sc: "scan exNow x = [r1]" if "reminders x = [r1]" for x
    using that by (simp add: scan_exNow r1_def exReminder_def matches_def)
  have id: "rid r1 = 1" "userId r1 = 7"
    by (simp_all add: r1_def exReminder_def)
  have tk: "timerTick (exEnv exNow) ([], s)
      = ([AwaitFind ''2025-11-01T12:26:40.000Z'' ''2025-11-01T12:31:40.000Z'',
          AwaitFind ''2025-11-01T12:26:40.000Z'' ''2025-11-01T12:31:40.000Z''], s)"
    by (simp add: timerTick_def s_def startCycle_exNow)
  have "trace (snd (run [Settle 0 (exEnv exNow), Settle 1 (exEnv exNow)]
        (timerTick (exEnv exNow) ([], s))))
      = [LogStarted, LogStopped, LogStarted, LogFound 1, Dispatch 1, LogFound 1, Dispatch 1]"
    unfolding tk
    by (simp add: run_Cons run_Nil find_exNow sc id s_def emit_def populate_def)
  then show ?thesis
    unfolding r1_def [symmetric] st
    by (simp add: dispatches_def) (simp add: s_def everyMinute_def)
qed

end
